theory Spec2Isabelle
  imports Main "HOL-Library.Sublist"
begin

section \<open>Strings and the platform's URI functions\<close>

text \<open>
  A JavaScript string is represented by the bytes of its UTF-8 encoding, so ASCII text is
  the text itself and every other character is a sequence of bytes from 128 upwards.
  Only well-formed strings (no lone surrogate) have such a representation; on them
  searching, comparing and concatenating bytes agrees with JavaScript's operations on
  UTF-16 code units. The functions of this section are not code of the repository:
  \<open>encodeURIComponent\<close> and \<open>decodeURIComponent\<close> follow ECMA-262 (Encode and Decode),
  the \<open>URLSearchParams\<close> operations follow the WHATWG URL standard
  (application/x-www-form-urlencoded parsing and serializing).
\<close>

definition byteOf :: "char \<Rightarrow> nat" where
  "byteOf c = of_char c"

definition isDigit :: "char \<Rightarrow> bool" where
  "isDigit c = (c \<in> set ''0123456789'')"

definition isAlpha :: "char \<Rightarrow> bool" where
  "isAlpha c = (c \<in> set ''ABCDEFGHIJKLMNOPQRSTUVWXYZabcdefghijklmnopqrstuvwxyz'')"

definition hexDigit :: "nat \<Rightarrow> char" where
  "hexDigit n = ''0123456789ABCDEF'' ! (n mod 16)"

definition hexVal :: "char \<Rightarrow> nat option" where
  "hexVal c =
     (if isDigit c then Some (byteOf c - 48)
      else if c \<in> set ''ABCDEF'' then Some (byteOf c - 55)
      else if c \<in> set ''abcdef'' then Some (byteOf c - 87)
      else None)"

definition pctByte :: "char \<Rightarrow> string" where
  "pctByte c = [CHR ''%'', hexDigit (byteOf c div 16), hexDigit (byteOf c mod 16)]"

text \<open>
  \<open>encodeURIComponent\<close>: every byte of the UTF-8 encoding is escaped as \<open>%XX\<close> (upper-case
  hexadecimal) except the unreserved characters \<open>A-Z a-z 0-9 - _ . ! ~ * ' ( )\<close>.
\<close>

definition uriUnreserved :: "char \<Rightarrow> bool" where
  "uriUnreserved c = (isAlpha c \<or> isDigit c \<or> c \<in> set [CHR ''-'', CHR ''_'', CHR ''.'', CHR ''!'',
     CHR ''~'', CHR ''*'', CHR 0x27, CHR ''('', CHR '')''])"

definition encodeURIComponent :: "string \<Rightarrow> string" where
  "encodeURIComponent s = concat (map (\<lambda>c. if uriUnreserved c then [c] else pctByte c) s)"

text \<open>
  Percent sequences are read first: \<open>Pct b\<close> is a well-formed \<open>%XX\<close> with value \<open>b\<close>,
  \<open>BadPct\<close> a \<open>%\<close> that is not followed by two hexadecimal digits, \<open>Raw c\<close> any other
  character.
\<close>

datatype ptok = Raw char | Pct char | BadPct

fun pctTokens :: "string \<Rightarrow> ptok list" where
  "pctTokens [] = []"
| "pctTokens (c # cs) =
     (if c = CHR ''%'' then
        (case cs of
           h1 # h2 # rest \<Rightarrow>
             (case (hexVal h1, hexVal h2) of
                (Some a, Some b) \<Rightarrow> Pct (char_of (16 * a + b)) # pctTokens rest
              | _ \<Rightarrow> BadPct # pctTokens cs)
         | _ \<Rightarrow> BadPct # pctTokens cs)
      else Raw c # pctTokens cs)"

text \<open>
  The state of a UTF-8 decoder between two bytes: the bytes of the current sequence read so
  far, how many continuation bytes are still needed, and the range the next one must lie in
  (which excludes overlong forms, surrogates and code points above U+10FFFF).
\<close>

record utf8State =
  pending :: string
  needed :: nat
  lower :: nat
  upper :: nat

definition utf8Init :: utf8State where
  "utf8Init = \<lparr>pending = [], needed = 0, lower = 128, upper = 191\<rparr>"

definition utf8Lead :: "char \<Rightarrow> utf8State option" where
  "utf8Lead b =
     (let n = byteOf b in
      if 194 \<le> n \<and> n \<le> 223 then Some \<lparr>pending = [b], needed = 1, lower = 128, upper = 191\<rparr>
      else if 224 \<le> n \<and> n \<le> 239 then
        Some \<lparr>pending = [b], needed = 2,
              lower = (if n = 224 then 160 else 128), upper = (if n = 237 then 159 else 191)\<rparr>
      else if 240 \<le> n \<and> n \<le> 244 then
        Some \<lparr>pending = [b], needed = 3,
              lower = (if n = 240 then 144 else 128), upper = (if n = 244 then 143 else 191)\<rparr>
      else None)"

definition utf8Cont :: "utf8State \<Rightarrow> char \<Rightarrow> bool" where
  "utf8Cont st b = (lower st \<le> byteOf b \<and> byteOf b \<le> upper st)"

definition utf8Push :: "utf8State \<Rightarrow> char \<Rightarrow> utf8State" where
  "utf8Push st b = \<lparr>pending = pending st @ [b], needed = needed st - 1, lower = 128, upper = 191\<rparr>"

datatype error =
    NotARoute                 \<comment> \<open>TypeError: Type does not contain a route. Use the route decorator.\<close>
  | ParseError                \<comment> \<open>Error: Could not parse URL to route\<close>
  | MissingPathField string   \<comment> \<open>Error: URL is missing path field for the given external key\<close>
  | MissingQueryField string  \<comment> \<open>Error: URL is missing query field for the given external key\<close>
  | PatternUnfulfilled        \<comment> \<open>Error: Not all patterns fulfilled\<close>
  | RegExpSyntaxError         \<comment> \<open>SyntaxError of the RegExp constructor: invalid or duplicate group name\<close>
  | URIError                  \<comment> \<open>URIError of decodeURIComponent: malformed escape sequence\<close>
  | NotAnObject               \<comment> \<open>TypeError: a property or the entries of undefined are read\<close>
  | Redefined                 \<comment> \<open>TypeError: Cannot redefine property\<close>
  | UserError string          \<comment> \<open>what a serialize or deserialize function of the user throws\<close>

text \<open>
  \<open>decodeURIComponent\<close>: a byte below 128 is written \<open>%XX\<close> on its own; a byte from 128
  upwards must start a valid UTF-8 sequence all of whose bytes are percent-escaped.
  Everything else throws URIError.
\<close>

fun decodeFrom :: "utf8State \<Rightarrow> ptok list \<Rightarrow> error + string" where
  "decodeFrom st [] = (if needed st = 0 then Inr [] else Inl URIError)"
| "decodeFrom st (BadPct # ts) = Inl URIError"
| "decodeFrom st (Raw c # ts) =
     (if needed st = 0 then map_sum id ((#) c) (decodeFrom st ts) else Inl URIError)"
| "decodeFrom st (Pct b # ts) =
     (if needed st = 0 then
        (if byteOf b < 128 then map_sum id ((#) b) (decodeFrom st ts)
         else (case utf8Lead b of None \<Rightarrow> Inl URIError | Some st' \<Rightarrow> decodeFrom st' ts))
      else if utf8Cont st b then
        (if needed st = 1 then map_sum id ((@) (pending st @ [b])) (decodeFrom utf8Init ts)
         else decodeFrom (utf8Push st b) ts)
      else Inl URIError)"

definition decodeURIComponent :: "string \<Rightarrow> error + string" where
  "decodeURIComponent s = decodeFrom utf8Init (pctTokens s)"

text \<open>
  The lenient decoder of the URL standard (UTF-8 decode without BOM): an ill-formed
  sequence becomes U+FFFD (bytes EF BF BD) and the byte that broke it is read again.
\<close>

definition replacementChar :: string where
  "replacementChar = [char_of (239::nat), char_of (191::nat), char_of (189::nat)]"

definition utf8Start :: "char \<Rightarrow> string \<times> utf8State" where
  "utf8Start b =
     (if byteOf b < 128 then ([b], utf8Init)
      else (case utf8Lead b of None \<Rightarrow> (replacementChar, utf8Init) | Some st \<Rightarrow> ([], st)))"

fun utf8Lossy :: "utf8State \<Rightarrow> string \<Rightarrow> string" where
  "utf8Lossy st [] = (if needed st = 0 then [] else replacementChar)"
| "utf8Lossy st (b # bs) =
     (if needed st = 0 then (case utf8Start b of (out, st') \<Rightarrow> out @ utf8Lossy st' bs)
      else if utf8Cont st b then
        (if needed st = 1 then pending st @ [b] @ utf8Lossy utf8Init bs
         else utf8Lossy (utf8Push st b) bs)
      else (case utf8Start b of (out, st') \<Rightarrow> replacementChar @ out @ utf8Lossy st' bs))"

fun pctDecodeLenient :: "ptok list \<Rightarrow> string" where
  "pctDecodeLenient [] = []"
| "pctDecodeLenient (Raw c # ts) = c # pctDecodeLenient ts"
| "pctDecodeLenient (Pct b # ts) = b # pctDecodeLenient ts"
| "pctDecodeLenient (BadPct # ts) = CHR ''%'' # pctDecodeLenient ts"

subsection \<open>URLSearchParams\<close>

type_synonym urlSearchParams = "(string \<times> string) list"

fun splitOn :: "char \<Rightarrow> string \<Rightarrow> string list" where
  "splitOn d [] = [[]]"
| "splitOn d (c # cs) =
     (if c = d then [] # splitOn d cs
      else (case splitOn d cs of [] \<Rightarrow> [[c]] | w # ws \<Rightarrow> (c # w) # ws))"

definition formDecode :: "string \<Rightarrow> string" where
  "formDecode s =
     utf8Lossy utf8Init (pctDecodeLenient (pctTokens (map (\<lambda>c. if c = CHR ''+'' then CHR '' '' else c) s)))"

definition parsePair :: "string \<Rightarrow> string \<times> string" where
  "parsePair s =
     (let name = takeWhile (\<lambda>c. c \<noteq> CHR ''='') s;
          val = drop (Suc (length name)) s
      in (formDecode name, formDecode val))"

definition urlspParse :: "string \<Rightarrow> urlSearchParams" where
  \<comment> \<open>new URLSearchParams(init) for a string: one leading question mark is dropped\<close>
  "urlspParse init =
     (let s = (case init of c # cs \<Rightarrow> if c = CHR ''?'' then cs else init | [] \<Rightarrow> [])
      in map parsePair (filter (\<lambda>w. w \<noteq> []) (splitOn CHR ''&'' s)))"

definition urlspGet :: "urlSearchParams \<Rightarrow> string \<Rightarrow> string option" where
  \<comment> \<open>the value of the first pair with this name, or null\<close>
  "urlspGet ps k = map_of ps k"

definition urlspAppend :: "urlSearchParams \<Rightarrow> string \<Rightarrow> string \<Rightarrow> urlSearchParams" where
  "urlspAppend ps k v = ps @ [(k, v)]"

fun urlspSet :: "urlSearchParams \<Rightarrow> string \<Rightarrow> string \<Rightarrow> urlSearchParams" where
  "urlspSet [] k v = [(k, v)]"
| "urlspSet ((k', v') # ps) k v =
     (if k' = k then (k, v) # filter (\<lambda>p. fst p \<noteq> k) ps else (k', v') # urlspSet ps k v)"

definition formSafe :: "char \<Rightarrow> bool" where
  "formSafe c = (isAlpha c \<or> isDigit c \<or> c \<in> set [CHR ''*'', CHR ''-'', CHR ''.'', CHR ''_''])"

definition formEncode :: "string \<Rightarrow> string" where
  "formEncode s =
     concat (map (\<lambda>c. if c = CHR '' '' then [CHR ''+''] else if formSafe c then [c] else pctByte c) s)"

fun joinWith :: "string \<Rightarrow> string list \<Rightarrow> string" where
  "joinWith sep [] = []"
| "joinWith sep [x] = x"
| "joinWith sep (x # y # ys) = x @ sep @ joinWith sep (y # ys)"

definition urlspToString :: "urlSearchParams \<Rightarrow> string" where
  "urlspToString ps = joinWith [CHR ''&''] (map (\<lambda>(k, v). formEncode k @ [CHR ''=''] @ formEncode v) ps)"


section \<open>JavaScript objects and values\<close>

text \<open>
  An object used as a dictionary (\<open>Record<string, T>\<close>) is the list of its own properties
  in the order \<open>Object.entries\<close> and \<open>Object.getOwnPropertyNames\<close> enumerate them: keys
  that are array indices (canonical decimal numerals below \<open>2^32 - 1\<close>) first, in
  ascending numeric order, then every other key in the order of creation. Properties
  inherited from \<open>Object.prototype\<close> (a key such as \<open>constructor\<close> or \<open>__proto__\<close>) are
  not modelled.
\<close>

type_synonym 'v obj = "(string \<times> 'v) list"

definition decimalValue :: "string \<Rightarrow> nat" where
  "decimalValue ds = foldl (\<lambda>n c. 10 * n + (byteOf c - 48)) 0 ds"

definition isArrayIndex :: "string \<Rightarrow> bool" where
  "isArrayIndex k =
     (k \<noteq> [] \<and> list_all isDigit k \<and> (k = ''0'' \<or> hd k \<noteq> CHR ''0'') \<and> decimalValue k < 4294967295)"

definition objGet :: "'v obj \<Rightarrow> string \<Rightarrow> 'v option" where
  "objGet ob k = map_of ob k"

fun objUpdate :: "string \<Rightarrow> 'v \<Rightarrow> 'v obj \<Rightarrow> 'v obj" where
  "objUpdate k v [] = []"
| "objUpdate k v ((k', v') # ob) = (if k' = k then (k, v) # ob else (k', v') # objUpdate k v ob)"

fun objInsertIndex :: "string \<Rightarrow> 'v \<Rightarrow> 'v obj \<Rightarrow> 'v obj" where
  "objInsertIndex k v [] = [(k, v)]"
| "objInsertIndex k v ((k', v') # ob) =
     (if isArrayIndex k' \<and> decimalValue k' < decimalValue k then (k', v') # objInsertIndex k v ob
      else (k, v) # (k', v') # ob)"

definition objSet :: "string \<Rightarrow> 'v \<Rightarrow> 'v obj \<Rightarrow> 'v obj" where
  \<comment> \<open>the assignment \<open>ob[k] = v\<close>\<close>
  "objSet k v ob =
     (if k \<in> fst ` set ob then objUpdate k v ob
      else if isArrayIndex k then objInsertIndex k v ob
      else ob @ [(k, v)])"

definition objAssign :: "'v obj \<Rightarrow> 'v obj \<Rightarrow> 'v obj" where
  \<comment> \<open>\<open>Object.assign(target, source)\<close>\<close>
  "objAssign target source = foldl (\<lambda>t (k, v). objSet k v t) target source"

text \<open>
  The values a field may hold. \<open>JOther text eqFalse\<close> stands for any other non-null value
  (a number, an object with a \<open>toString\<close> of its own), given by the two things the code
  can observe of it: the text its \<open>toString()\<close> returns, and whether \<open>value == false\<close>.
\<close>

datatype jsval =
    JUndefined
  | JNull
  | JBool bool
  | JStr string
  | JArr "jsval list"
  | JObj "(string \<times> jsval) list"
  | JOther string bool

definition isNullish :: "jsval \<Rightarrow> bool" where
  \<comment> \<open>\<open>value == null\<close>\<close>
  "isNullish v = (v = JUndefined \<or> v = JNull)"

fun jsToString :: "jsval \<Rightarrow> string" where
  "jsToString JUndefined = ''undefined''"
| "jsToString JNull = ''null''"
| "jsToString (JBool b) = (if b then ''true'' else ''false'')"
| "jsToString (JStr s) = s"
| "jsToString (JArr xs) =
     joinWith '','' (map (\<lambda>x. if x = JUndefined \<or> x = JNull then [] else jsToString x) xs)"
| "jsToString (JObj ps) = ''[object Object]''"
| "jsToString (JOther text eqFalse) = text"

text \<open>
  \<open>value == false\<close> compares the number the value converts to with zero. For a string this
  is ECMA-262's StringToNumber: white space around a decimal literal (sign, digits, fraction,
  exponent), \<open>Infinity\<close>, or an unsigned binary, octal or hexadecimal literal; the empty
  string is zero, every other text is NaN. A decimal literal denotes zero when its digits
  are all zero or its value is at most \<open>2^-1075\<close>, which rounds to zero.
\<close>

definition ws1 :: "char \<Rightarrow> bool" where
  "ws1 c = (byteOf c \<in> {9, 10, 11, 12, 13, 32})"

definition ws2 :: "char \<Rightarrow> char \<Rightarrow> bool" where
  "ws2 c d = (byteOf c = 194 \<and> byteOf d = 160)"

definition ws3 :: "char \<Rightarrow> char \<Rightarrow> char \<Rightarrow> bool" where
  "ws3 c d e =
     (let x = byteOf c; y = byteOf d; z = byteOf e in
      (x = 225 \<and> y = 154 \<and> z = 128) \<or>
      (x = 226 \<and> y = 128 \<and> (128 \<le> z \<and> z \<le> 138 \<or> z = 168 \<or> z = 169 \<or> z = 175)) \<or>
      (x = 226 \<and> y = 129 \<and> z = 159) \<or>
      (x = 227 \<and> y = 128 \<and> z = 128) \<or>
      (x = 239 \<and> y = 187 \<and> z = 191))"

fun dropWS :: "string \<Rightarrow> string" where
  "dropWS (c # d # e # s) =
     (if ws1 c then dropWS (d # e # s) else if ws2 c d then dropWS (e # s)
      else if ws3 c d e then dropWS s else c # d # e # s)"
| "dropWS [c, d] = (if ws1 c then dropWS [d] else if ws2 c d then [] else [c, d])"
| "dropWS [c] = (if ws1 c then [] else [c])"
| "dropWS [] = []"

definition radixLiteralIsZero :: "string \<Rightarrow> string \<Rightarrow> bool" where
  \<comment> \<open>the digits after \<open>0x\<close>, \<open>0o\<close> or \<open>0b\<close>: at least one, all zero, then only white space\<close>
  "radixLiteralIsZero digits s =
     (let ds = takeWhile (\<lambda>c. c \<in> set digits) s in
      ds \<noteq> [] \<and> list_all (\<lambda>c. c = CHR ''0'') ds \<and> dropWS (dropWhile (\<lambda>c. c \<in> set digits) s) = [])"

definition decimalLiteralIsZero :: "string \<Rightarrow> bool" where
  "decimalLiteralIsZero s =
     (let ip = takeWhile isDigit s;
          r1 = dropWhile isDigit s;
          hasDot = (r1 \<noteq> [] \<and> hd r1 = CHR ''.'');
          fp = (if hasDot then takeWhile isDigit (tl r1) else []);
          r2 = (if hasDot then dropWhile isDigit (tl r1) else r1);
          hasE = (r2 \<noteq> [] \<and> hd r2 \<in> set ''eE'');
          r3 = (if hasE then tl r2 else []);
          neg = (r3 \<noteq> [] \<and> hd r3 = CHR ''-'');
          r4 = (if r3 \<noteq> [] \<and> hd r3 \<in> set ''+-'' then tl r3 else r3);
          ep = takeWhile isDigit r4;
          rest = (if hasE \<and> ep \<noteq> [] then dropWhile isDigit r4 else r2);
          mant = decimalValue (ip @ fp);
          down = length fp + (if neg then decimalValue ep else 0);
          up = (if neg then 0 else decimalValue ep)
      in (ip \<noteq> [] \<or> fp \<noteq> []) \<and> dropWS rest = [] \<and>
         (mant = 0 \<or> mant * 10 ^ up * 2 ^ 1075 \<le> 10 ^ down))"

definition stringToNumberIsZero :: "string \<Rightarrow> bool" where
  "stringToNumberIsZero str =
     (let s = dropWS str in
      if s = [] then True
      else if prefix ''0x'' s \<or> prefix ''0X'' s then radixLiteralIsZero ''0123456789abcdefABCDEF'' (drop 2 s)
      else if prefix ''0o'' s \<or> prefix ''0O'' s then radixLiteralIsZero ''01234567'' (drop 2 s)
      else if prefix ''0b'' s \<or> prefix ''0B'' s then radixLiteralIsZero ''01'' (drop 2 s)
      else decimalLiteralIsZero (if hd s \<in> set ''+-'' then tl s else s))"

fun looseEqFalse :: "jsval \<Rightarrow> bool" where
  \<comment> \<open>\<open>value == false\<close>\<close>
  "looseEqFalse JUndefined = False"
| "looseEqFalse JNull = False"
| "looseEqFalse (JBool v) = (\<not> v)"
| "looseEqFalse (JStr s) = stringToNumberIsZero s"
| "looseEqFalse (JArr xs) = stringToNumberIsZero (jsToString (JArr xs))"
| "looseEqFalse (JObj ps) = False"
| "looseEqFalse (JOther text eqFalse) = eqFalse"

section \<open>Serializing: toRelativePath and toRelativeUrl\<close>

text \<open>
  \<open>str.replace(pattern, replacement)\<close> with a string pattern replaces the first occurrence
  only, and reads \<open>$$\<close>, \<open>$&\<close>, \<open>$`\<close> and \<open>$'\<close> in the replacement as a dollar sign, the
  matched text, the text before and the text after the match.
\<close>

fun splitAtFirst :: "string \<Rightarrow> string \<Rightarrow> (string \<times> string) option" where
  "splitAtFirst pat [] = (if pat = [] then Some ([], []) else None)"
| "splitAtFirst pat (c # cs) =
     (if prefix pat (c # cs) then Some ([], drop (length pat) (c # cs))
      else map_option (\<lambda>(pre, post). (c # pre, post)) (splitAtFirst pat cs))"

fun getSubstitution :: "string \<Rightarrow> string \<Rightarrow> string \<Rightarrow> string \<Rightarrow> string" where
  "getSubstitution matched pre post (c # d # r) =
     (if c = CHR ''$'' \<and> d = CHR ''$'' then CHR ''$'' # getSubstitution matched pre post r
      else if c = CHR ''$'' \<and> d = CHR ''&'' then matched @ getSubstitution matched pre post r
      else if c = CHR ''$'' \<and> d = CHR 0x60 then pre @ getSubstitution matched pre post r
      else if c = CHR ''$'' \<and> d = CHR 0x27 then post @ getSubstitution matched pre post r
      else c # getSubstitution matched pre post (d # r))"
| "getSubstitution matched pre post r = r"

definition jsReplace :: "string \<Rightarrow> string \<Rightarrow> string \<Rightarrow> string" where
  "jsReplace str pat replacement =
     (case splitAtFirst pat str of
        None \<Rightarrow> str
      | Some (pre, post) \<Rightarrow> pre @ getSubstitution pat pre post replacement @ post)"

datatype qval = QStr string | QArr "string list"

definition substitute :: "string \<Rightarrow> string \<times> string \<Rightarrow> string" where
  \<comment> \<open>the body of the loop over \<open>Object.entries(pathParams)\<close>\<close>
  "substitute url entry =
     (case entry of (key, v) \<Rightarrow> jsReplace url (''{'' @ key @ ''}'') (encodeURIComponent v))"

definition appendQuery :: "urlSearchParams \<Rightarrow> string \<times> qval \<Rightarrow> urlSearchParams" where
  \<comment> \<open>the body of the loop over \<open>Object.entries(queryParams)\<close>\<close>
  "appendQuery urlParams entry =
     (case entry of
        (key, QArr vs) \<Rightarrow> foldl (\<lambda>ps v. urlspAppend ps key v) urlParams vs
      | (key, QStr v) \<Rightarrow> urlspSet urlParams key v)"

definition toRelativePath :: "string \<Rightarrow> string obj \<Rightarrow> qval obj option \<Rightarrow> error + string" where
  "toRelativePath pattern pathParams queryParams =
     (let url = foldl substitute pattern pathParams
      in if CHR ''{'' \<in> set url then Inl PatternUnfulfilled
         else (case queryParams of
                 None \<Rightarrow> Inr url
               | Some qp \<Rightarrow>
                   (let urlParams = foldl appendQuery [] qp;
                        searchSegment = urlspToString urlParams
                    in if searchSegment \<noteq> [] then Inr (url @ ''?'' @ searchSegment) else Inr url)))"

text \<open>
  The metadata a decorator attaches to a property. \<open>path()\<close> and \<open>query()\<close> leave the
  property key undefined, \<open>path(key)\<close> and \<open>query(key)\<close> set it, \<open>query({key, type})\<close>
  sets the key and the data type, and the two-argument forms carry a serialize and a
  deserialize function. Such a function of the user returns its result (\<open>Inr\<close>) or throws
  (\<open>Inl\<close>, with the message). Of a data type the code only asks whether it is \<open>Boolean\<close>.
\<close>

datatype dataType = BooleanType | OtherType

datatype metadata =
    Path "string option"
  | PathSerde "jsval \<Rightarrow> string + string obj" "string obj \<Rightarrow> string + jsval"
  | Query "string option" "dataType option"
  | QuerySerde "jsval \<Rightarrow> string + string obj" "urlSearchParams \<Rightarrow> string + jsval"

text \<open>
  A class as the library sees it: the pattern and the name the \<open>route\<close> decorator installs
  (absent on a class that was never decorated), the own properties of a fresh instance
  \<open>new type()\<close>, and \<open>Reflect.getMetadata(routingKey, instance, propName)\<close>.
\<close>

record routeType =
  routeKey :: "string option"
  nameKey :: "string option"
  construct :: "jsval obj"
  getMetadata :: "string \<Rightarrow> metadata option"

type_synonym params = "string obj \<times> qval obj"

fun serializeField :: "metadata \<Rightarrow> string \<Rightarrow> jsval \<Rightarrow> params \<Rightarrow> error + params" where
  "serializeField (Path propertyKey) propName v (pathParams, queryParams) =
     (let key = (case propertyKey of Some k \<Rightarrow> k | None \<Rightarrow> propName)
      in Inr (objSet key (jsToString v) pathParams, queryParams))"
| "serializeField (PathSerde serialize deserialize) propName v (pathParams, queryParams) =
     (case serialize v of
        Inl thrown \<Rightarrow> Inl (UserError thrown)
      | Inr r \<Rightarrow> Inr (objAssign pathParams r, queryParams))"
| "serializeField (Query propertyKey dt) propName v (pathParams, queryParams) =
     (let key = (case propertyKey of Some k \<Rightarrow> k | None \<Rightarrow> propName)
      in if dt = Some BooleanType \<and> \<not> isNullish v \<and> \<not> looseEqFalse v
         then Inr (pathParams, objSet key (QStr []) queryParams)
         else Inr (pathParams, objSet key (QStr (jsToString v)) queryParams))"
| "serializeField (QuerySerde serialize deserialize) propName v (pathParams, queryParams) =
     (case serialize v of
        Inl thrown \<Rightarrow> Inl (UserError thrown)
      | Inr r \<Rightarrow> Inr (pathParams, objAssign queryParams (map (\<lambda>(k, s). (k, QStr s)) r)))"

fun collectParams :: "routeType \<Rightarrow> jsval obj \<Rightarrow> params \<Rightarrow> error + params" where
  "collectParams ty [] ps = Inr ps"
| "collectParams ty ((propName, v) # rest) ps =
     (case getMetadata ty propName of
        None \<Rightarrow> collectParams ty rest ps
      | Some meta \<Rightarrow>
          if isNullish v then collectParams ty rest ps
          else (case serializeField meta propName v ps of
                  Inl e \<Rightarrow> Inl e
                | Inr ps' \<Rightarrow> collectParams ty rest ps'))"

definition toRelativeUrl :: "routeType \<Rightarrow> jsval obj \<Rightarrow> string option \<Rightarrow> error + string" where
  \<comment> \<open>\<open>toRelativeUrl(obj, route)\<close> for an instance \<open>obj\<close> of the class with own properties \<open>props\<close>\<close>
  "toRelativeUrl ty props route =
     (case collectParams ty props ([], []) of
        Inl e \<Rightarrow> Inl e
      | Inr (pathParams, queryParams) \<Rightarrow>
          (case (case route of Some r \<Rightarrow> Some r | None \<Rightarrow> routeKey ty) of
             None \<Rightarrow> Inl NotAnObject
           | Some pattern \<Rightarrow> toRelativePath pattern pathParams (Some queryParams)))"

section \<open>Deserializing: the compiled pattern and fromUrl\<close>

text \<open>
  \<open>fromUrl\<close> builds its regular expression in three steps: \<open>escapeRegExp\<close> puts a backslash
  before each of \<open>\ ^ $ . * + ? ( ) [ ] { } |\<close>; the replacement of
  \<open>/\\\{(.*?)\\\}/g\<close> turns every escaped \<open>{name}\<close> (from an opening brace to the nearest
  closing brace, with no line terminator between them) into the named group
  \<open>(?<name>[^/?]+)\<close>; \<open>new RegExp\<close> parses the result. Every other character of the
  pattern is escaped or ordinary, so it matches itself. The model reads the pattern into
  that sequence directly: \<open>Lit c\<close> matches the character \<open>c\<close>, \<open>Grp name\<close> is a named group.

  The RegExp constructor throws a SyntaxError when a group name is not an identifier or
  occurs twice. The name it sees is the escaped one, so a name with one of the characters
  above (a dollar sign too) is never an identifier. Identifiers are taken over ASCII
  (a letter or underscore, then letters, digits and underscores): the Unicode tables that
  admit further letters are not modelled, and a name with a byte from 128 upwards is
  treated as invalid.
\<close>

datatype seg = Lit char | Grp string

definition hasLineTerminator :: "string \<Rightarrow> bool" where
  \<comment> \<open>LF, CR, U+2028 or U+2029\<close>
  "hasLineTerminator s =
     (CHR 0x0A \<in> set s \<or> CHR 0x0D \<in> set s
      \<or> (\<exists>i < length s - 2. byteOf (s ! i) = 226 \<and> byteOf (s ! (i + 1)) = 128
            \<and> (byteOf (s ! (i + 2)) = 168 \<or> byteOf (s ! (i + 2)) = 169)))"

function scanPattern :: "string \<Rightarrow> seg list" where
  "scanPattern [] = []"
| "scanPattern (c # cs) =
     (if c = CHR ''{'' \<and> CHR ''}'' \<in> set cs \<and> \<not> hasLineTerminator (takeWhile (\<lambda>x. x \<noteq> CHR ''}'') cs)
      then Grp (takeWhile (\<lambda>x. x \<noteq> CHR ''}'') cs) # scanPattern (tl (dropWhile (\<lambda>x. x \<noteq> CHR ''}'') cs))
      else Lit c # scanPattern cs)"
  by pat_completeness auto
termination
proof (relation "measure length")
  fix c :: char and cs :: string
  have "length (dropWhile (\<lambda>x. x \<noteq> CHR ''}'') cs) \<le> length cs"
    by (rule length_dropWhile_le)
  then show "(tl (dropWhile (\<lambda>x. x \<noteq> CHR ''}'') cs), c # cs) \<in> measure length"
    by simp
qed simp_all

definition isIdentifier :: "string \<Rightarrow> bool" where
  "isIdentifier name =
     (case name of
        [] \<Rightarrow> False
      | c # cs \<Rightarrow> (isAlpha c \<or> c = CHR ''_'') \<and> list_all (\<lambda>x. isAlpha x \<or> isDigit x \<or> x = CHR ''_'') cs)"

fun groupNames :: "seg list \<Rightarrow> string list" where
  "groupNames [] = []"
| "groupNames (Lit c # segs) = groupNames segs"
| "groupNames (Grp name # segs) = name # groupNames segs"

definition compilePattern :: "string \<Rightarrow> error + seg list" where
  "compilePattern pattern =
     (let segs = scanPattern pattern in
      if list_all isIdentifier (groupNames segs) \<and> distinct (groupNames segs) then Inr segs
      else Inl RegExpSyntaxError)"

text \<open>
  \<open>re.exec(path)\<close>: the expression is not anchored, so the match is tried from every start
  position, leftmost first. A group is greedy: it first takes the longest run of characters
  other than \<open>/\<close> and \<open>?\<close>, and gives characters back one at a time while the rest of the
  pattern does not match. The trailing \<open>(?:\?([^#]*))?\<close> always succeeds: it takes a
  question mark that follows the match and everything up to the first \<open>#\<close>.
\<close>

fun firstSome :: "('a \<Rightarrow> 'b option) \<Rightarrow> 'a list \<Rightarrow> 'b option" where
  "firstSome f [] = None"
| "firstSome f (x # xs) = (case f x of Some y \<Rightarrow> Some y | None \<Rightarrow> firstSome f xs)"

definition groupChar :: "char \<Rightarrow> bool" where
  "groupChar c = (c \<noteq> CHR ''/'' \<and> c \<noteq> CHR ''?'')"

fun matchHere :: "seg list \<Rightarrow> string \<Rightarrow> (string obj \<times> string) option" where
  "matchHere [] s = Some ([], s)"
| "matchHere (Lit c # segs) s =
     (case s of [] \<Rightarrow> None | x # xs \<Rightarrow> if x = c then matchHere segs xs else None)"
| "matchHere (Grp name # segs) s =
     firstSome
       (\<lambda>k. map_option (\<lambda>(groups, rest). ((name, take k s) # groups, rest)) (matchHere segs (drop k s)))
       (rev [1..<Suc (length (takeWhile groupChar s))])"

definition regexExec :: "seg list \<Rightarrow> string \<Rightarrow> (string obj \<times> string option) option" where
  "regexExec segs s =
     (case firstSome (\<lambda>i. matchHere segs (drop i s)) [0..<Suc (length s)] of
        None \<Rightarrow> None
      | Some (groups, rest) \<Rightarrow>
          Some (groups,
                (case rest of
                   [] \<Rightarrow> None
                 | c # cs \<Rightarrow> if c = CHR ''?'' then Some (takeWhile (\<lambda>x. x \<noteq> CHR ''#'') cs) else None)))"

datatype pathField = PathKey string | PathFn "string obj \<Rightarrow> string + jsval"

datatype queryField = QueryKey string "dataType option" | QueryFn "urlSearchParams \<Rightarrow> string + jsval"

fun resolveFieldsMetadata :: "routeType \<Rightarrow> string list \<Rightarrow> pathField obj \<times> queryField obj
    \<Rightarrow> pathField obj \<times> queryField obj" where
  "resolveFieldsMetadata ty [] (pathFields, queryFields) = (pathFields, queryFields)"
| "resolveFieldsMetadata ty (propName # rest) (pathFields, queryFields) =
     (case getMetadata ty propName of
        None \<Rightarrow> resolveFieldsMetadata ty rest (pathFields, queryFields)
      | Some (Path propertyKey) \<Rightarrow>
          resolveFieldsMetadata ty rest
            (objSet propName (PathKey (case propertyKey of Some k \<Rightarrow> k | None \<Rightarrow> propName)) pathFields,
             queryFields)
      | Some (PathSerde serialize deserialize) \<Rightarrow>
          resolveFieldsMetadata ty rest (objSet propName (PathFn deserialize) pathFields, queryFields)
      | Some (Query propertyKey dt) \<Rightarrow>
          resolveFieldsMetadata ty rest
            (pathFields,
             objSet propName (QueryKey (case propertyKey of Some k \<Rightarrow> k | None \<Rightarrow> propName) dt) queryFields)
      | Some (QuerySerde serialize deserialize) \<Rightarrow>
          resolveFieldsMetadata ty rest (pathFields, objSet propName (QueryFn deserialize) queryFields))"

definition propOf :: "jsval obj \<Rightarrow> string \<Rightarrow> jsval" where
  \<comment> \<open>\<open>tmp[key]\<close>: undefined when the instance has no such property\<close>
  "propOf tmp key = (case objGet tmp key of Some v \<Rightarrow> v | None \<Rightarrow> JUndefined)"

fun readPathFields :: "pathField obj \<Rightarrow> string obj \<Rightarrow> jsval obj \<Rightarrow> error + jsval obj" where
  "readPathFields [] groups tmp = Inr tmp"
| "readPathFields ((key, PathKey v) # rest) groups tmp =
     (case objGet groups v of
        None \<Rightarrow>
          if \<not> isNullish (propOf tmp key) then readPathFields rest groups tmp
          else Inl (MissingPathField v)
      | Some regexValue \<Rightarrow>
          (case decodeURIComponent regexValue of
             Inl e \<Rightarrow> Inl e
           | Inr decoded \<Rightarrow> readPathFields rest groups (objSet key (JStr decoded) tmp)))"
| "readPathFields ((key, PathFn deserialize) # rest) groups tmp =
     (case deserialize groups of
        Inl thrown \<Rightarrow> Inl (UserError thrown)
      | Inr r \<Rightarrow> readPathFields rest groups (objSet key r tmp))"

fun readQueryFields :: "queryField obj \<Rightarrow> urlSearchParams \<Rightarrow> jsval obj \<Rightarrow> error + jsval obj" where
  "readQueryFields [] queryParams tmp = Inr tmp"
| "readQueryFields ((key, QueryKey propName dt) # rest) queryParams tmp =
     (let queryValue = urlspGet queryParams propName in
      if dt = Some BooleanType
      then readQueryFields rest queryParams (objSet key (JBool (queryValue \<noteq> None)) tmp)
      else (case queryValue of
              None \<Rightarrow>
                if propOf tmp key \<noteq> JUndefined then readQueryFields rest queryParams tmp
                else Inl (MissingQueryField propName)
            | Some q \<Rightarrow> readQueryFields rest queryParams (objSet key (JStr q) tmp)))"
| "readQueryFields ((key, QueryFn deserialize) # rest) queryParams tmp =
     (case deserialize queryParams of
        Inl thrown \<Rightarrow> Inl (UserError thrown)
      | Inr r \<Rightarrow> readQueryFields rest queryParams (objSet key r tmp))"

text \<open>
  The query parameters \<open>fromUrl\<close> reads: those of the captured query string, none when the
  match is not followed by a question mark.
\<close>

definition queryParamsOf :: "string option \<Rightarrow> urlSearchParams" where
  "queryParamsOf queryParamString = (case queryParamString of Some q \<Rightarrow> urlspParse q | None \<Rightarrow> [])"

definition fromUrl :: "routeType \<Rightarrow> string \<Rightarrow> string option \<Rightarrow> error + jsval obj" where
  "fromUrl ty path route =
     (case (case route of Some r \<Rightarrow> Some r | None \<Rightarrow> routeKey ty) of
        None \<Rightarrow> Inl NotARoute
      | Some pattern \<Rightarrow>
          (let tmp = construct ty;
               (pathFields, queryFields) = resolveFieldsMetadata ty (map fst tmp) ([], [])
           in case compilePattern pattern of
                Inl e \<Rightarrow> Inl e
              | Inr re \<Rightarrow>
                  (case regexExec re path of
                     None \<Rightarrow> Inl ParseError
                   | Some (groups, queryParamString) \<Rightarrow>
                       (let queryParams = queryParamsOf queryParamString
                        in case readPathFields pathFields groups tmp of
                             Inl e \<Rightarrow> Inl e
                           | Inr tmp' \<Rightarrow> readQueryFields queryFields queryParams tmp'))))"

section \<open>The registry of routes\<close>

text \<open>
  \<open>knownRoutes\<close> maps a group to the object that maps a route name to its constructors.
  The decorator \<open>route(name, path, {group})\<close> creates the group and the name on first use,
  installs the pattern and the name on the constructor (a second decoration of the same
  constructor fails: the properties are not configurable) and appends the constructor.
  The model passes the registry in and returns it.
\<close>

type_synonym registry = "routeType list obj obj"

definition groupOf :: "string option \<Rightarrow> string" where
  \<comment> \<open>\<open>options?.group ?? ""\<close>, and the default \<open>group = ""\<close> of a parameter\<close>
  "groupOf optGroup = (case optGroup of Some g \<Rightarrow> g | None \<Rightarrow> [])"

definition route :: "string \<Rightarrow> string \<Rightarrow> string option \<Rightarrow> routeType \<Rightarrow> registry
    \<Rightarrow> registry \<times> (error + routeType)" where
  "route name path optGroup ctor knownRoutes =
     (let group = groupOf optGroup;
          kr1 = (if objGet knownRoutes group = None then objSet group [] knownRoutes else knownRoutes);
          names = (case objGet kr1 group of Some ns \<Rightarrow> ns | None \<Rightarrow> []);
          names1 = (if objGet names name = None then objSet name [] names else names);
          kr2 = objSet group names1 kr1
      in if routeKey ctor \<noteq> None then (kr2, Inl Redefined)
         else (let ctor' = ctor\<lparr>routeKey := Some path, nameKey := Some name\<rparr>;
                   candidates = (case objGet names1 name of Some cs \<Rightarrow> cs | None \<Rightarrow> [])
               in (objSet group (objSet name (candidates @ [ctor']) names1) kr2, Inr ctor')))"










section \<open>The route type of the README and auxiliary notions\<close>

text \<open>
  The class \<open>ExampleRoute\<close> of the README, decorated with the pattern of its page
  \<open>/example/{name}\<close>: a path field \<open>name\<close> with default \<open>""\<close>, a Boolean query field
  \<open>isHappy\<close> under the key \<open>happy\<close> with default \<open>false\<close>, and a query field \<open>other\<close>
  with a default text.
\<close>

definition ExampleRoute :: routeType where
  "ExampleRoute =
     \<lparr>routeKey = Some ''/example/{name}'', nameKey = Some ''example'',
      construct = [(''name'', JStr []), (''isHappy'', JBool False),
                   (''other'', JStr ''This is some default text.'')],
      getMetadata = (\<lambda>p. if p = ''name'' then Some (Path None)
                         else if p = ''isHappy'' then Some (Query (Some ''happy'') (Some BooleanType))
                         else if p = ''other'' then Some (Query None None)
                         else None)\<rparr>"



text \<open>
  The entry that \<open>resolveFieldsMetadata\<close> stores for a property: in \<open>pathFields\<close> for a
  path annotation, in \<open>queryFields\<close> for a query annotation.
\<close>

definition pathFieldOf :: "routeType \<Rightarrow> string \<Rightarrow> pathField option" where
  "pathFieldOf ty p =
     (case getMetadata ty p of
        Some (Path propertyKey) \<Rightarrow> Some (PathKey (case propertyKey of Some k \<Rightarrow> k | None \<Rightarrow> p))
      | Some (PathSerde serialize deserialize) \<Rightarrow> Some (PathFn deserialize)
      | _ \<Rightarrow> None)"

definition queryFieldOf :: "routeType \<Rightarrow> string \<Rightarrow> queryField option" where
  "queryFieldOf ty p =
     (case getMetadata ty p of
        Some (Query propertyKey dt) \<Rightarrow> Some (QueryKey (case propertyKey of Some k \<Rightarrow> k | None \<Rightarrow> p) dt)
      | Some (QuerySerde serialize deserialize) \<Rightarrow> Some (QueryFn deserialize)
      | _ \<Rightarrow> None)"

text \<open>
  What it means for a whole string to conform to a compiled pattern: every literal
  character is there, and every group stands for one or more characters other than \<open>/\<close>
  and \<open>?\<close>.
\<close>

fun segsMatch :: "seg list \<Rightarrow> string \<Rightarrow> bool" where
  "segsMatch [] s = (s = [])"
| "segsMatch (Lit c # segs) s = (case s of [] \<Rightarrow> False | x # xs \<Rightarrow> x = c \<and> segsMatch segs xs)"
| "segsMatch (Grp name # segs) s =
     (\<exists>k \<in> {1..length s}. list_all groupChar (take k s) \<and> segsMatch segs (drop k s))"

text \<open>
  Two more classes on the pattern of the README: \<open>RequiredNameRoute\<close> declares the path
  field \<open>name\<close> without a default, \<open>OptionalRoute\<close> gives the plain query field \<open>other\<close>
  the default \<open>null\<close>.
\<close>

definition RequiredNameRoute :: routeType where
  "RequiredNameRoute =
     \<lparr>routeKey = Some ''/example/{name}'', nameKey = Some ''example'',
      construct = [(''name'', JUndefined)],
      getMetadata = (\<lambda>p. if p = ''name'' then Some (Path None) else None)\<rparr>"








text \<open>
  The text of a pattern read into literals and placeholders, and the pattern with the
  placeholders that have a parameter replaced by the percent-encoded value. A template is
  a pattern in which some placeholders are filled already: it has no opening brace of its
  own, and no brace inside a placeholder name.
\<close>

fun segText :: "seg \<Rightarrow> string" where
  "segText (Lit c) = [c]"
| "segText (Grp name) = ''{'' @ name @ ''}''"

definition patternText :: "seg list \<Rightarrow> string" where
  "patternText segs = concat (map segText segs)"

fun fillSeg :: "(string \<Rightarrow> string option) \<Rightarrow> seg \<Rightarrow> seg list" where
  "fillSeg f (Lit c) = [Lit c]"
| "fillSeg f (Grp name) =
     (case f name of Some v \<Rightarrow> map Lit (encodeURIComponent v) | None \<Rightarrow> [Grp name])"

definition fillWith :: "(string \<Rightarrow> string option) \<Rightarrow> seg list \<Rightarrow> seg list" where
  "fillWith f segs = concat (map (fillSeg f) segs)"

definition templateOk :: "seg list \<Rightarrow> bool" where
  "templateOk segs =
     (Lit CHR ''{'' \<notin> set segs
      \<and> (\<forall>name \<in> set (groupNames segs). CHR ''{'' \<notin> set name \<and> CHR ''}'' \<notin> set name))"

section \<open>Properties of objects and the collected parameters\<close>

lemma fst_in_keys: "(a, b) \<in> set ob \<Longrightarrow> a \<in> fst ` set ob"
  by (force simp: image_iff)

lemma map_fst_objUpdate: "map fst (objUpdate k v ob) = map fst ob"
  by (induction ob) auto


lemma set_objInsertIndex: "set (objInsertIndex k v ob) = insert (k, v) (set ob)"
  by (induction ob) (auto split: if_splits)

lemma keys_objInsertIndex: "fst ` set (objInsertIndex k v ob) = insert k (fst ` set ob)"
  by (simp add: set_objInsertIndex)


lemma distinct_objInsertIndex:
  "distinct (map fst ob) \<Longrightarrow> k \<notin> fst ` set ob \<Longrightarrow> distinct (map fst (objInsertIndex k v ob))"
proof (induction ob)
  case Nil
  then show ?case by simp
next
  case (Cons a ob)
  obtain k' v' where a: "a = (k', v')" by (cases a)
  from Cons have "distinct (map fst (objInsertIndex k v ob))" by simp
  moreover have "fst ` set (objInsertIndex k v ob) = insert k (fst ` set ob)"
    by (rule keys_objInsertIndex)
  ultimately show ?case using Cons.prems a by auto
qed

lemma distinct_objSet: "distinct (map fst ob) \<Longrightarrow> distinct (map fst (objSet k v ob))"
  by (auto simp: objSet_def map_fst_objUpdate distinct_objInsertIndex)

lemma objGet_None_keys: "objGet ob k = None \<longleftrightarrow> k \<notin> fst ` set ob"
  by (simp add: objGet_def map_of_eq_None_iff)

lemma objGet_objUpdate:
  "objGet (objUpdate k v ob) k' = (if k' = k \<and> k \<in> fst ` set ob then Some v else objGet ob k')"
proof (induction ob)
  case Nil
  then show ?case by (simp add: objGet_def)
next
  case (Cons a ob)
  obtain a1 a2 where a: "a = (a1, a2)" by (cases a)
  show ?case using Cons a by (auto simp: objGet_def dest: fst_in_keys)
qed

lemma objGet_objInsertIndex:
  "k \<notin> fst ` set ob \<Longrightarrow> objGet (objInsertIndex k v ob) k' = (if k' = k then Some v else objGet ob k')"
  by (induction ob) (auto simp: objGet_def)

lemma objGet_append_new:
  "k \<notin> fst ` set ob \<Longrightarrow> objGet (ob @ [(k, v)]) k' = (if k' = k then Some v else objGet ob k')"
proof -
  assume "k \<notin> fst ` set ob"
  then have "map_of ob k = None"
    by (simp add: map_of_eq_None_iff)
  then show ?thesis
    by (cases "k' = k") (auto simp: objGet_def map_add_def split: option.splits)
qed

lemma objGet_objSet: "objGet (objSet k v ob) k' = (if k' = k then Some v else objGet ob k')"
  by (simp add: objSet_def objGet_objUpdate objGet_objInsertIndex objGet_append_new)

lemma objGet_mem: "distinct (map fst ob) \<Longrightarrow> objGet ob k = Some v \<longleftrightarrow> (k, v) \<in> set ob"
  by (simp add: objGet_def)


















section \<open>Boolean query fields\<close>






section \<open>Array values of plain query fields\<close>




section \<open>Properties of fromUrl\<close>


lemma resolve_get:
  "resolveFieldsMetadata ty names (pf, qf) = (pf', qf') \<Longrightarrow>
     objGet pf' p = (if p \<in> set names \<and> pathFieldOf ty p \<noteq> None then pathFieldOf ty p else objGet pf p)
   \<and> objGet qf' p = (if p \<in> set names \<and> queryFieldOf ty p \<noteq> None then queryFieldOf ty p else objGet qf p)"
proof (induction names arbitrary: pf qf)
  case Nil
  then show ?case by simp
next
  case (Cons n names)
  show ?case
  proof (cases "getMetadata ty n")
    case None
    with Cons show ?thesis
      by (auto simp: pathFieldOf_def queryFieldOf_def)
  next
    case (Some m)
    with Cons show ?thesis
      by (cases m)
         (auto simp: pathFieldOf_def queryFieldOf_def objGet_objSet split: option.splits metadata.splits)
  qed
qed

lemma resolve_distinct:
  "resolveFieldsMetadata ty names (pf, qf) = (pf', qf') \<Longrightarrow> distinct (map fst pf) \<Longrightarrow>
     distinct (map fst qf) \<Longrightarrow> distinct (map fst pf') \<and> distinct (map fst qf')"
proof (induction names arbitrary: pf qf)
  case Nil
  then show ?case by simp
next
  case (Cons n names)
  show ?case
  proof (cases "getMetadata ty n")
    case None
    with Cons show ?thesis by auto
  next
    case (Some m)
    with Cons show ?thesis
      by (cases m) (auto simp: distinct_objSet)
  qed
qed

lemma readQueryFields_other:
  "readQueryFields qf q tmp = Inr tmp' \<Longrightarrow> p \<notin> fst ` set qf \<Longrightarrow> objGet tmp' p = objGet tmp p"
proof (induction qf q tmp rule: readQueryFields.induct)
  case (1 q tmp)
  then show ?case by simp
next
  case (2 key propName dt rest q tmp)
  then show ?case
    by (auto simp: Let_def objGet_objSet split: if_splits option.splits)
next
  case (3 key deserialize rest q tmp)
  then show ?case
    by (auto simp: objGet_objSet split: sum.splits)
qed

lemma readPathFields_other:
  "readPathFields pf groups tmp = Inr tmp' \<Longrightarrow> p \<notin> fst ` set pf \<Longrightarrow> objGet tmp' p = objGet tmp p"
proof (induction pf groups tmp rule: readPathFields.induct)
  case (1 groups tmp)
  then show ?case by simp
next
  case (2 key v rest groups tmp)
  then show ?case
    by (auto simp: objGet_objSet split: if_splits option.splits sum.splits)
next
  case (3 key deserialize rest groups tmp)
  then show ?case
    by (auto simp: objGet_objSet split: sum.splits)
qed


lemma propOf_objSet: "propOf (objSet k v tmp) p = (if p = k then v else propOf tmp p)"
  by (simp add: propOf_def objGet_objSet)

lemma decodeFrom_error: "decodeFrom st ts = Inl e \<Longrightarrow> e = URIError"
proof (induction st ts rule: decodeFrom.induct)
  case (1 st)
  then show ?case by (simp split: if_splits)
next
  case (2 st ts)
  then show ?case by simp
next
  case (3 st c ts)
  then show ?case by (cases "decodeFrom st ts") (auto split: if_splits)
next
  case (4 st b ts)
  show ?case
  proof (cases "needed st = 0")
    case True
    show ?thesis
    proof (cases "byteOf b < 128")
      case lt: True
      with True 4 show ?thesis by (cases "decodeFrom st ts") auto
    next
      case ge: False
      with True 4 show ?thesis by (cases "utf8Lead b") auto
    qed
  next
    case False
    show ?thesis
    proof (cases "utf8Cont st b")
      case c: True
      show ?thesis
      proof (cases "needed st = 1")
        case one: True
        with False c 4 show ?thesis by (cases "decodeFrom utf8Init ts") auto
      next
        case more: False
        with False c 4 show ?thesis by auto
      qed
    next
      case nc: False
      with False 4 show ?thesis by simp
    qed
  qed
qed

lemma decodeURIComponent_error: "decodeURIComponent s = Inl e \<Longrightarrow> e = URIError"
  unfolding decodeURIComponent_def by (rule decodeFrom_error)

lemma readPathFields_key:
  "readPathFields pf groups tmp = Inr tmp' \<Longrightarrow> distinct (map fst pf) \<Longrightarrow> (p, PathKey key) \<in> set pf \<Longrightarrow>
     (case objGet groups key of
        Some regexValue \<Rightarrow> \<exists>d. decodeURIComponent regexValue = Inr d \<and> objGet tmp' p = Some (JStr d)
      | None \<Rightarrow> objGet tmp' p = objGet tmp p \<and> \<not> isNullish (propOf tmp p))"
proof (induction pf groups tmp rule: readPathFields.induct)
  case (1 groups tmp)
  then show ?case by simp
next
  case (2 k v rest groups tmp)
  show ?case
  proof (cases "(p, PathKey key) = (k, PathKey v)")
    case True
    then have eq: "p = k" "key = v" by simp_all
    from "2.prems"(2) eq have notin: "p \<notin> fst ` set rest" by simp
    show ?thesis
    proof (cases "objGet groups key")
      case None
      with "2.prems"(1) eq
      have "\<not> isNullish (propOf tmp p)" and "readPathFields rest groups tmp = Inr tmp'"
        by (auto split: if_splits)
      with readPathFields_other [OF _ notin] None show ?thesis by simp
    next
      case (Some rv)
      with "2.prems"(1) eq obtain d where d: "decodeURIComponent rv = Inr d"
        and r: "readPathFields rest groups (objSet p (JStr d) tmp) = Inr tmp'"
        by (auto split: sum.splits)
      from readPathFields_other [OF r notin] d Some show ?thesis
        by (simp add: objGet_objSet)
    qed
  next
    case False
    with "2.prems" have mem: "(p, PathKey key) \<in> set rest" and d: "distinct (map fst rest)"
      and ne: "p \<noteq> k"
      by (auto dest: fst_in_keys)
    show ?thesis
    proof (cases "objGet groups v")
      case None
      with "2.prems"(1)
      have u: "\<not> isNullish (propOf tmp k)" and r: "readPathFields rest groups tmp = Inr tmp'"
        by (auto split: if_splits)
      from "2.IH"(1) [OF None u r d mem] show ?thesis .
    next
      case (Some rv)
      with "2.prems"(1) obtain dd where dd: "decodeURIComponent rv = Inr dd"
        and r: "readPathFields rest groups (objSet k (JStr dd) tmp) = Inr tmp'"
        by (auto split: sum.splits)
      from "2.IH"(2) [OF Some dd r d mem] ne show ?thesis
        by (auto simp: objGet_objSet propOf_def split: option.splits if_splits)
    qed
  qed
next
  case (3 k deserialize rest groups tmp)
  from "3.prems" have mem: "(p, PathKey key) \<in> set rest" and d: "distinct (map fst rest)"
    and ne: "p \<noteq> k"
    by (auto dest: fst_in_keys)
  from "3.prems"(1) obtain r where de: "deserialize groups = Inr r"
    and rr: "readPathFields rest groups (objSet k r tmp) = Inr tmp'"
    by (auto split: sum.splits)
  from "3.IH" [OF de rr d mem] ne show ?case
    by (auto simp: objGet_objSet propOf_def split: option.splits if_splits)
qed

lemma readPathFields_missing:
  "readPathFields pf groups tmp = Inl (MissingPathField k) \<Longrightarrow> distinct (map fst pf) \<Longrightarrow>
     \<exists>p. (p, PathKey k) \<in> set pf \<and> objGet groups k = None \<and> isNullish (propOf tmp p)"
proof (induction pf groups tmp rule: readPathFields.induct)
  case (1 groups tmp)
  then show ?case by simp
next
  case (2 key v rest groups tmp)
  from "2.prems"(2) have d: "distinct (map fst rest)" and notin: "key \<notin> fst ` set rest" by simp_all
  show ?case
  proof (cases "objGet groups v")
    case None
    show ?thesis
    proof (cases "isNullish (propOf tmp key)")
      case True
      with "2.prems"(1) None have "v = k" by simp
      with None True show ?thesis by auto
    next
      case False
      with "2.prems"(1) None have "readPathFields rest groups tmp = Inl (MissingPathField k)" by simp
      from "2.IH"(1) [OF None False this d] show ?thesis by auto
    qed
  next
    case (Some rv)
    with "2.prems"(1) obtain dd where dd: "decodeURIComponent rv = Inr dd"
      and r: "readPathFields rest groups (objSet key (JStr dd) tmp) = Inl (MissingPathField k)"
      by (auto split: sum.splits dest: decodeURIComponent_error)
    from "2.IH"(2) [OF Some dd r d] obtain p where
      p: "(p, PathKey k) \<in> set rest" "objGet groups k = None"
         "isNullish (propOf (objSet key (JStr dd) tmp) p)"
      by blast
    from p(1) notin have "p \<noteq> key" by (auto dest: fst_in_keys)
    with p show ?thesis by (auto simp: propOf_objSet)
  qed
next
  case (3 key deserialize rest groups tmp)
  from "3.prems"(2) have d: "distinct (map fst rest)" and notin: "key \<notin> fst ` set rest" by simp_all
  from "3.prems"(1) obtain r where de: "deserialize groups = Inr r"
    and rr: "readPathFields rest groups (objSet key r tmp) = Inl (MissingPathField k)"
    by (auto split: sum.splits)
  from "3.IH" [OF de rr d] obtain p where
    p: "(p, PathKey k) \<in> set rest" "objGet groups k = None" "isNullish (propOf (objSet key r tmp) p)"
    by blast
  from p(1) notin have "p \<noteq> key" by (auto dest: fst_in_keys)
  with p show ?case by (auto simp: propOf_objSet)
qed


lemma readPathFields_errors:
  "readPathFields pf groups tmp = Inl e \<Longrightarrow> e \<noteq> ParseError \<and> (\<forall>k. e \<noteq> MissingQueryField k)"
proof (induction pf groups tmp rule: readPathFields.induct)
  case (1 groups tmp)
  then show ?case by simp
next
  case (2 key v rest groups tmp)
  then show ?case
    by (auto split: option.splits if_splits sum.splits dest: decodeURIComponent_error)
next
  case (3 key deserialize rest groups tmp)
  then show ?case by (auto split: sum.splits)
qed

lemma readQueryFields_errors:
  "readQueryFields qf q tmp = Inl e \<Longrightarrow> e \<noteq> ParseError \<and> (\<forall>k. e \<noteq> MissingPathField k)"
proof (induction qf q tmp rule: readQueryFields.induct)
  case (1 q tmp)
  then show ?case by simp
next
  case (2 key propName dt rest q tmp)
  then show ?case
    by (auto simp: Let_def split: option.splits if_splits)
next
  case (3 key deserialize rest q tmp)
  then show ?case by (auto split: sum.splits)
qed

lemma compilePattern_error: "compilePattern pattern = Inl e \<Longrightarrow> e = RegExpSyntaxError"
  by (auto simp: compilePattern_def Let_def split: if_splits)

lemma fromUrl_unfold:
  assumes "(case rt of Some r \<Rightarrow> Some r | None \<Rightarrow> routeKey ty) = Some pattern"
    and "compilePattern pattern = Inr re"
    and "regexExec re url = Some (groups, q)"
    and "resolveFieldsMetadata ty (map fst (construct ty)) ([], []) = (pf, qf)"
  shows "fromUrl ty url rt =
           (case readPathFields pf groups (construct ty) of
              Inl e \<Rightarrow> Inl e
            | Inr tmp1 \<Rightarrow> readQueryFields qf (queryParamsOf q) tmp1)"
  using assms by (simp add: fromUrl_def Let_def)

lemma fromUrl_InrD:
  assumes "fromUrl ty url rt = Inr inst"
  obtains pattern re groups q pf qf tmp1 where
    "(case rt of Some r \<Rightarrow> Some r | None \<Rightarrow> routeKey ty) = Some pattern"
    "compilePattern pattern = Inr re" "regexExec re url = Some (groups, q)"
    "resolveFieldsMetadata ty (map fst (construct ty)) ([], []) = (pf, qf)"
    "readPathFields pf groups (construct ty) = Inr tmp1"
    "readQueryFields qf (queryParamsOf q) tmp1 = Inr inst"
proof -
  obtain pf qf where r: "resolveFieldsMetadata ty (map fst (construct ty)) ([], []) = (pf, qf)"
    by (cases "resolveFieldsMetadata ty (map fst (construct ty)) ([], [])")
  from assms obtain pattern where p: "(case rt of Some r \<Rightarrow> Some r | None \<Rightarrow> routeKey ty) = Some pattern"
    by (auto simp: fromUrl_def split: option.splits)
  from assms p obtain re where c: "compilePattern pattern = Inr re"
    by (cases "compilePattern pattern") (auto simp: fromUrl_def Let_def split: prod.splits)
  from assms p c obtain groups q where e: "regexExec re url = Some (groups, q)"
    by (cases "regexExec re url") (auto simp: fromUrl_def Let_def split: prod.splits)
  from assms fromUrl_unfold [OF p c e r] obtain tmp1 where
    "readPathFields pf groups (construct ty) = Inr tmp1"
    "readQueryFields qf (queryParamsOf q) tmp1 = Inr inst"
    by (auto split: sum.splits)
  with p c e r that show thesis by blast
qed

lemma resolved_fields:
  assumes "resolveFieldsMetadata ty (map fst (construct ty)) ([], []) = (pf, qf)"
  shows "distinct (map fst pf)" and "distinct (map fst qf)"
    and "objGet pf p = (if p \<in> fst ` set (construct ty) then pathFieldOf ty p else None)"
    and "objGet qf p = (if p \<in> fst ` set (construct ty) then queryFieldOf ty p else None)"
proof -
  from resolve_distinct [OF assms] show "distinct (map fst pf)" and "distinct (map fst qf)"
    by simp_all
  from resolve_get [OF assms, of p]
  show "objGet pf p = (if p \<in> fst ` set (construct ty) then pathFieldOf ty p else None)"
    and "objGet qf p = (if p \<in> fst ` set (construct ty) then queryFieldOf ty p else None)"
    by (auto simp: objGet_def)
qed

lemma path_query_disjoint: "pathFieldOf ty p \<noteq> None \<Longrightarrow> queryFieldOf ty p = None"
  by (auto simp: pathFieldOf_def queryFieldOf_def split: option.splits metadata.splits)


lemma firstSome_SomeD: "firstSome f xs = Some y \<Longrightarrow> \<exists>x \<in> set xs. f x = Some y"
  by (induction xs) (auto split: option.splits)


lemma take_le_takeWhile:
  "k \<le> length (takeWhile P s) \<Longrightarrow> list_all P (take k s)"
proof (induction s arbitrary: k)
  case Nil
  then show ?case by simp
next
  case (Cons a s)
  then show ?case by (cases k) (auto split: if_splits)
qed



lemma cand_mem: "k \<in> set (rev [1..<Suc n]) \<longleftrightarrow> 1 \<le> k \<and> k \<le> n"
  by auto

lemma matchHere_sound:
  "matchHere segs s = Some (groups, rest) \<Longrightarrow>
     \<exists>mid. s = mid @ rest \<and> segsMatch segs mid \<and> map fst groups = groupNames segs"
proof (induction segs arbitrary: s groups rest)
  case Nil
  then show ?case by simp
next
  case (Cons sg segs)
  show ?case
  proof (cases sg)
    case (Lit c)
    with Cons.prems obtain xs where s: "s = c # xs" and m: "matchHere segs xs = Some (groups, rest)"
      by (auto split: list.splits if_splits)
    from Cons.IH [OF m] obtain mid where "xs = mid @ rest" "segsMatch segs mid"
      "map fst groups = groupNames segs" by blast
    with s Lit have "s = (c # mid) @ rest \<and> segsMatch (sg # segs) (c # mid)
        \<and> map fst groups = groupNames (sg # segs)" by simp
    then show ?thesis by blast
  next
    case (Grp name)
    with Cons.prems have "firstSome
       (\<lambda>k. map_option (\<lambda>(groups, rest). ((name, take k s) # groups, rest)) (matchHere segs (drop k s)))
       (rev [1..<Suc (length (takeWhile groupChar s))]) = Some (groups, rest)"
      by simp
    from firstSome_SomeD [OF this]
    obtain k where k: "k \<in> set (rev [1..<Suc (length (takeWhile groupChar s))])"
      and f: "map_option (\<lambda>(groups, rest). ((name, take k s) # groups, rest)) (matchHere segs (drop k s))
              = Some (groups, rest)"
      by blast
    from f obtain g' where m: "matchHere segs (drop k s) = Some (g', rest)"
      and g: "groups = (name, take k s) # g'"
      by auto
    from Cons.IH [OF m] obtain mid where mid: "drop k s = mid @ rest" "segsMatch segs mid"
      "map fst g' = groupNames segs" by blast
    from k have k1: "1 \<le> k" and k2: "k \<le> length (takeWhile groupChar s)"
      unfolding cand_mem by simp_all
    have k3: "k \<le> length s"
      using k2 length_takeWhile_le [of groupChar s] by linarith
    have all: "list_all groupChar (take k s)" using k2 by (rule take_le_takeWhile)
    let ?m = "take k s @ mid"
    have "s = ?m @ rest" using mid(1) by (metis append_assoc append_take_drop_id)
    moreover have "segsMatch (sg # segs) ?m"
      using Grp k1 k3 all mid(2) by (auto intro!: bexI [of _ k])
    moreover have "map fst groups = groupNames (sg # segs)"
      using Grp g mid(3) by simp
    ultimately show ?thesis by blast
  qed
qed



lemma regexExec_groups:
  "regexExec segs url = Some (groups, q) \<Longrightarrow> map fst groups = groupNames segs"
proof -
  assume "regexExec segs url = Some (groups, q)"
  then obtain rest where
    "firstSome (\<lambda>i. matchHere segs (drop i url)) [0..<Suc (length url)] = Some (groups, rest)"
    by (auto simp: regexExec_def split: option.splits)
  then obtain i where "matchHere segs (drop i url) = Some (groups, rest)"
    by (auto dest!: firstSome_SomeD)
  from matchHere_sound [OF this] show ?thesis by blast
qed

lemma regexExec_group_absent:
  "regexExec segs url = Some (groups, q) \<Longrightarrow> objGet groups k = None \<longleftrightarrow> k \<notin> set (groupNames segs)"
  using regexExec_groups [of segs url groups q] by (simp add: objGet_None_keys) (metis set_map)


lemma fromUrl_InlD:
  assumes "fromUrl ty url rt = Inl e"
  shows "((case rt of Some r \<Rightarrow> Some r | None \<Rightarrow> routeKey ty) = None \<and> e = NotARoute)
    \<or> (\<exists>pattern. (case rt of Some r \<Rightarrow> Some r | None \<Rightarrow> routeKey ty) = Some pattern \<and>
          (compilePattern pattern = Inl e
           \<or> (\<exists>re. compilePattern pattern = Inr re \<and>
                 (regexExec re url = None \<and> e = ParseError
                  \<or> (\<exists>groups q pf qf. regexExec re url = Some (groups, q)
                        \<and> resolveFieldsMetadata ty (map fst (construct ty)) ([], []) = (pf, qf)
                        \<and> (readPathFields pf groups (construct ty) = Inl e
                             \<or> (\<exists>tmp1. readPathFields pf groups (construct ty) = Inr tmp1
                                   \<and> readQueryFields qf (queryParamsOf q) tmp1 = Inl e)))))))"
proof (cases "(case rt of Some r \<Rightarrow> Some r | None \<Rightarrow> routeKey ty)")
  case None
  with assms show ?thesis by (simp add: fromUrl_def)
next
  case (Some pattern)
  obtain pf qf where r: "resolveFieldsMetadata ty (map fst (construct ty)) ([], []) = (pf, qf)"
    by (cases "resolveFieldsMetadata ty (map fst (construct ty)) ([], [])")
  show ?thesis
  proof (cases "compilePattern pattern")
    case (Inl e')
    with assms Some r have "e' = e" by (simp add: fromUrl_def Let_def)
    with Inl Some show ?thesis by simp
  next
    case (Inr re)
    show ?thesis
    proof (cases "regexExec re url")
      case None
      with assms Some Inr r have "e = ParseError" by (simp add: fromUrl_def Let_def)
      with None Some Inr show ?thesis by simp
    next
      case m: (Some gq)
      obtain groups q where gq: "gq = (groups, q)" by (cases gq)
      from fromUrl_unfold [OF Some Inr m [unfolded gq] r] assms
      have "(case readPathFields pf groups (construct ty) of
              Inl e \<Rightarrow> Inl e
            | Inr tmp1 \<Rightarrow> readQueryFields qf (queryParamsOf q) tmp1) = Inl e"
        by simp
      then have "readPathFields pf groups (construct ty) = Inl e
                   \<or> (\<exists>tmp1. readPathFields pf groups (construct ty) = Inr tmp1
                         \<and> readQueryFields qf (queryParamsOf q) tmp1 = Inl e)"
        by (cases "readPathFields pf groups (construct ty)") auto
      with Some Inr m gq r show ?thesis by auto
    qed
  qed
qed

lemma fromUrl_ParseError:
  assumes "(case rt of Some r \<Rightarrow> Some r | None \<Rightarrow> routeKey ty) = Some pattern"
    and "compilePattern pattern = Inr re"
  shows "fromUrl ty url rt = Inl ParseError \<longleftrightarrow> regexExec re url = None"
proof
  assume "fromUrl ty url rt = Inl ParseError"
  from fromUrl_InlD [OF this] assms show "regexExec re url = None"
    by (auto dest: readPathFields_errors readQueryFields_errors)
next
  assume "regexExec re url = None"
  with assms show "fromUrl ty url rt = Inl ParseError"
    by (simp add: fromUrl_def Let_def split: prod.splits)
qed


lemma fromUrl_path_field:
  assumes ok: "fromUrl ty url rt = Inr inst"
    and own: "p \<in> fst ` set (construct ty)"
    and pf: "pathFieldOf ty p = Some (PathKey key)"
  shows "\<exists>pattern re groups q.
           (case rt of Some r \<Rightarrow> Some r | None \<Rightarrow> routeKey ty) = Some pattern
         \<and> compilePattern pattern = Inr re \<and> regexExec re url = Some (groups, q)
         \<and> (case objGet groups key of
               Some regexValue \<Rightarrow> \<exists>d. decodeURIComponent regexValue = Inr d \<and> objGet inst p = Some (JStr d)
             | None \<Rightarrow> objGet inst p = objGet (construct ty) p \<and> \<not> isNullish (propOf (construct ty) p))"
proof -
  from ok obtain pattern re groups q pf' qf' tmp1 where
    f: "(case rt of Some r \<Rightarrow> Some r | None \<Rightarrow> routeKey ty) = Some pattern"
       "compilePattern pattern = Inr re" "regexExec re url = Some (groups, q)" and
    r: "resolveFieldsMetadata ty (map fst (construct ty)) ([], []) = (pf', qf')" and
    rp: "readPathFields pf' groups (construct ty) = Inr tmp1" and
    rq: "readQueryFields qf' (queryParamsOf q) tmp1 = Inr inst"
    by (rule fromUrl_InrD)
  note rs = resolved_fields [OF r]
  from rs(3) [of p] own pf have "objGet pf' p = Some (PathKey key)" by simp
  with rs(1) have mem: "(p, PathKey key) \<in> set pf'" by (simp add: objGet_mem)
  from pf have "queryFieldOf ty p = None" by (simp add: path_query_disjoint)
  with rs(4) [of p] have "p \<notin> fst ` set qf'" by (simp add: objGet_None_keys split: if_splits)
  from readQueryFields_other [OF rq this] have same: "objGet inst p = objGet tmp1 p" .
  from readPathFields_key [OF rp rs(1) mem] same
  have "(case objGet groups key of
               Some regexValue \<Rightarrow> \<exists>d. decodeURIComponent regexValue = Inr d \<and> objGet inst p = Some (JStr d)
             | None \<Rightarrow> objGet inst p = objGet (construct ty) p \<and> \<not> isNullish (propOf (construct ty) p))"
    by (auto split: option.splits)
  with f show ?thesis by blast
qed

lemma fromUrl_missing_path:
  assumes "fromUrl ty url rt = Inl (MissingPathField k)"
  shows "\<exists>p pattern re. p \<in> fst ` set (construct ty) \<and> pathFieldOf ty p = Some (PathKey k)
           \<and> isNullish (propOf (construct ty) p)
           \<and> (case rt of Some r \<Rightarrow> Some r | None \<Rightarrow> routeKey ty) = Some pattern
           \<and> compilePattern pattern = Inr re \<and> k \<notin> set (groupNames re) \<and> regexExec re url \<noteq> None"
proof -
  from fromUrl_InlD [OF assms] obtain pattern re groups q pf qf where
    f: "(case rt of Some r \<Rightarrow> Some r | None \<Rightarrow> routeKey ty) = Some pattern"
       "compilePattern pattern = Inr re" "regexExec re url = Some (groups, q)" and
    r: "resolveFieldsMetadata ty (map fst (construct ty)) ([], []) = (pf, qf)" and
    rp: "readPathFields pf groups (construct ty) = Inl (MissingPathField k)"
    by (auto dest: compilePattern_error readQueryFields_errors)
  note rs = resolved_fields [OF r]
  from readPathFields_missing [OF rp rs(1)] obtain p where
    p: "(p, PathKey k) \<in> set pf" "objGet groups k = None" "isNullish (propOf (construct ty) p)"
    by blast
  from p(1) rs(1) have "objGet pf p = Some (PathKey k)" by (simp add: objGet_mem)
  with rs(3) [of p] have "p \<in> fst ` set (construct ty)" "pathFieldOf ty p = Some (PathKey k)"
    by (auto split: if_splits)
  moreover from p(2) regexExec_group_absent [OF f(3)] have "k \<notin> set (groupNames re)" by simp
  ultimately show ?thesis using f p(3) by auto
qed





section \<open>Matching a URL against the pattern\<close>




section \<open>Missing fields and defaults\<close>

lemma example_pattern_compiled:
  "compilePattern ''/example/{name}'' = Inr (scanPattern ''/example/{name}'')"
  by code_simp

lemma example_pattern_groups: "groupNames (scanPattern ''/example/{name}'') = [''name'']"
  by code_simp

lemma example_exec_empty: "regexExec (scanPattern ''/example/{name}'') ''/example/'' = None"
  by code_simp

lemma example_exec_Basic:
  "regexExec (scanPattern ''/example/{name}'') ''/example/Basic'' = Some ([(''name'', ''Basic'')], None)"
  by code_simp

lemma decode_Basic: "decodeURIComponent ''Basic'' = Inr ''Basic''"
  by code_simp

text \<open>
  C4, as stated, fails in its first half: against \<open>/example/{name}\<close> the URL \<open>/example/\<close>
  is rejected by the match itself, since a group needs at least one character, so the error
  is ParseError and not MissingPathFieldError, also for a field without a default.
\<close>

theorem missing_name_counterexample:
  "propOf (construct RequiredNameRoute) ''name'' = JUndefined
   \<and> fromUrl RequiredNameRoute ''/example/'' None = Inl ParseError
   \<and> fromUrl RequiredNameRoute ''/example/'' None \<noteq> Inl (MissingPathField ''name'')"
  by code_simp

text \<open>
  C4, amended. For every type on the pattern \<open>/example/{name}\<close>: deserializing
  \<open>/example/\<close> throws ParseError, whatever the fields and their defaults; deserializing
  \<open>/example/Basic\<close> assigns \<open>name = "Basic"\<close> whenever it returns, and it returns when
  \<open>name\<close> is the only property. MissingPathFieldError naming the external key is thrown
  only after a successful match, for a plain path field whose key names no group of the
  pattern and whose value on the fresh instance is null or undefined.
\<close>

theorem example_name_route:
  assumes rk: "routeKey ty = Some ''/example/{name}''"
  shows "fromUrl ty ''/example/'' None = Inl ParseError
       \<and> (\<forall>inst. ''name'' \<in> fst ` set (construct ty) \<and> getMetadata ty ''name'' = Some (Path None)
                 \<and> fromUrl ty ''/example/Basic'' None = Inr inst
              \<longrightarrow> objGet inst ''name'' = Some (JStr ''Basic''))
       \<and> (\<forall>d. construct ty = [(''name'', d)] \<and> getMetadata ty ''name'' = Some (Path None)
              \<longrightarrow> fromUrl ty ''/example/Basic'' None = Inr [(''name'', JStr ''Basic'')])
       \<and> (\<forall>url rt k. fromUrl ty url rt = Inl (MissingPathField k)
              \<longrightarrow> (\<exists>p pattern re. p \<in> fst ` set (construct ty) \<and> pathFieldOf ty p = Some (PathKey k)
                     \<and> isNullish (propOf (construct ty) p)
                     \<and> (case rt of Some r \<Rightarrow> Some r | None \<Rightarrow> routeKey ty) = Some pattern
                     \<and> compilePattern pattern = Inr re \<and> k \<notin> set (groupNames re)
                     \<and> regexExec re url \<noteq> None))"
proof (intro conjI allI impI)
  have sel: "(case None of Some r \<Rightarrow> Some r | None \<Rightarrow> routeKey ty) = Some ''/example/{name}''"
    using rk by simp
  show "fromUrl ty ''/example/'' None = Inl ParseError"
    using fromUrl_ParseError [OF sel example_pattern_compiled] example_exec_empty by simp
  {
    fix inst
    assume a: "''name'' \<in> fst ` set (construct ty) \<and> getMetadata ty ''name'' = Some (Path None)
                 \<and> fromUrl ty ''/example/Basic'' None = Inr inst"
    then have pf: "pathFieldOf ty ''name'' = Some (PathKey ''name'')"
      by (simp add: pathFieldOf_def)
    from a have own: "''name'' \<in> fst ` set (construct ty)"
      and ok: "fromUrl ty ''/example/Basic'' None = Inr inst" by simp_all
    from fromUrl_path_field [OF ok own pf] obtain pattern re groups q where
      g: "(case None of Some r \<Rightarrow> Some r | None \<Rightarrow> routeKey ty) = Some pattern"
         "compilePattern pattern = Inr re" "regexExec re ''/example/Basic'' = Some (groups, q)"
         "(case objGet groups ''name'' of
             Some regexValue \<Rightarrow> \<exists>d. decodeURIComponent regexValue = Inr d \<and> objGet inst ''name'' = Some (JStr d)
           | None \<Rightarrow> objGet inst ''name'' = objGet (construct ty) ''name''
                     \<and> \<not> isNullish (propOf (construct ty) ''name''))"
      by blast
    from g(1) rk have "pattern = ''/example/{name}''" by simp
    with g(2) example_pattern_compiled have "re = scanPattern ''/example/{name}''" by simp
    with g(3) example_exec_Basic have "groups = [(''name'', ''Basic'')]" by simp
    with g(4) decode_Basic show "objGet inst ''name'' = Some (JStr ''Basic'')"
      by (simp add: objGet_def)
  }
  {
    fix d
    assume a: "construct ty = [(''name'', d)] \<and> getMetadata ty ''name'' = Some (Path None)"
    then have r: "resolveFieldsMetadata ty (map fst (construct ty)) ([], [])
                    = ([(''name'', PathKey ''name'')], [])"
      by (simp add: objSet_def isArrayIndex_def isDigit_def)
    have "readPathFields [(''name'', PathKey ''name'')] [(''name'', ''Basic'')] [(''name'', d)]
            = Inr [(''name'', JStr ''Basic'')]"
      by (simp add: objGet_def decode_Basic objSet_def)
    with fromUrl_unfold [OF sel example_pattern_compiled example_exec_Basic r] a
    show "fromUrl ty ''/example/Basic'' None = Inr [(''name'', JStr ''Basic'')]"
      by simp
  }
  {
    fix url rt k
    assume "fromUrl ty url rt = Inl (MissingPathField k)"
    then show "\<exists>p pattern re. p \<in> fst ` set (construct ty) \<and> pathFieldOf ty p = Some (PathKey k)
                     \<and> isNullish (propOf (construct ty) p)
                     \<and> (case rt of Some r \<Rightarrow> Some r | None \<Rightarrow> routeKey ty) = Some pattern
                     \<and> compilePattern pattern = Inr re \<and> k \<notin> set (groupNames re)
                     \<and> regexExec re url \<noteq> None"
      by (rule fromUrl_missing_path)
  }
qed

theorem example_name_route_witness:
  "routeKey RequiredNameRoute = Some ''/example/{name}''
   \<and> fromUrl RequiredNameRoute ''/example/'' None = Inl ParseError
   \<and> fromUrl RequiredNameRoute ''/example/Basic'' None = Inr [(''name'', JStr ''Basic'')]
   \<and> fromUrl RequiredNameRoute ''/example'' (Some ''/example'') = Inl (MissingPathField ''name'')
   \<and> (\<exists>p pattern re. pathFieldOf RequiredNameRoute p = Some (PathKey ''name'')
         \<and> isNullish (propOf (construct RequiredNameRoute) p)
         \<and> compilePattern pattern = Inr re \<and> ''name'' \<notin> set (groupNames re))"
proof -
  have rk: "routeKey RequiredNameRoute = Some ''/example/{name}''"
    by (simp add: RequiredNameRoute_def)
  note t0 = example_name_route [OF rk]
  from t0 have a: "fromUrl RequiredNameRoute ''/example/'' None = Inl ParseError" by blast
  have c: "construct RequiredNameRoute = [(''name'', JUndefined)]
             \<and> getMetadata RequiredNameRoute ''name'' = Some (Path None)"
    by (simp add: RequiredNameRoute_def)
  from t0 [THEN conjunct2, THEN conjunct2, THEN conjunct1, rule_format, OF c]
  have b: "fromUrl RequiredNameRoute ''/example/Basic'' None = Inr [(''name'', JStr ''Basic'')]" .
  have m: "fromUrl RequiredNameRoute ''/example'' (Some ''/example'') = Inl (MissingPathField ''name'')"
    by code_simp
  from t0 [THEN conjunct2, THEN conjunct2, THEN conjunct2, rule_format, OF m]
  have e: "\<exists>p pattern re. pathFieldOf RequiredNameRoute p = Some (PathKey ''name'')
         \<and> isNullish (propOf (construct RequiredNameRoute) p)
         \<and> compilePattern pattern = Inr re \<and> ''name'' \<notin> set (groupNames re)"
    by blast
  from rk a b m e show ?thesis by blast
qed




section \<open>The registry and reverse lookup\<close>





























section \<open>Encoded text and the substitution of placeholders\<close>

text \<open>
  The output of \<open>encodeURIComponent\<close> consists of unreserved characters and percent signs;
  it has no brace, dollar sign, slash, question mark, hash, ampersand, equals sign, plus or
  space. So a substituted value is never read as a replacement pattern, and it never adds
  a placeholder or a separator to a URL.
\<close>

lemma hexDigit_in: "hexDigit n \<in> set ''0123456789ABCDEF''"
  unfolding hexDigit_def by (rule nth_mem) simp

lemma hexDigit_unreserved: "uriUnreserved (hexDigit n)"
proof -
  have "list_all uriUnreserved ''0123456789ABCDEF''" by code_simp
  then have "\<forall>c \<in> set ''0123456789ABCDEF''. uriUnreserved c" unfolding list_all_iff .
  with hexDigit_in show ?thesis by blast
qed

lemma encoded_chars:
  assumes "c \<in> set (encodeURIComponent v)"
  shows "uriUnreserved c \<or> c = CHR ''%''"
proof -
  from assms have "\<exists>b. c \<in> set (if uriUnreserved b then [b] else pctByte b)"
    unfolding encodeURIComponent_def by auto
  then obtain b where "c \<in> set (if uriUnreserved b then [b] else pctByte b)" ..
  then show ?thesis
    using hexDigit_unreserved by (cases "uriUnreserved b") (auto simp: pctByte_def)
qed

lemma reserved_not_unreserved: "c \<in> set ''{}$/?#&=+ '' \<Longrightarrow> \<not> uriUnreserved c"
proof -
  have "list_all (\<lambda>c. \<not> uriUnreserved c) ''{}$/?#&=+ ''" by code_simp
  then have "\<forall>c \<in> set ''{}$/?#&=+ ''. \<not> uriUnreserved c" unfolding list_all_iff .
  then show "c \<in> set ''{}$/?#&=+ '' \<Longrightarrow> \<not> uriUnreserved c" by blast
qed

lemma encoded_safe:
  assumes "c \<in> set (encodeURIComponent v)"
  shows "c \<notin> set ''{}$/?#&=+ ''"
proof
  assume r: "c \<in> set ''{}$/?#&=+ ''"
  then have "\<not> uriUnreserved c" by (rule reserved_not_unreserved)
  with encoded_chars [OF assms] have "c = CHR ''%''" by simp
  with r show False by simp
qed

lemma encoded_no_brace: "CHR ''{'' \<notin> set (encodeURIComponent v)"
  using encoded_safe [of "CHR ''{''" v] by auto

lemma encoded_no_dollar: "CHR ''$'' \<notin> set (encodeURIComponent v)"
  using encoded_safe [of "CHR ''$''" v] by auto

lemma encoded_groupChar: "c \<in> set (encodeURIComponent v) \<Longrightarrow> groupChar c"
  using encoded_safe [of c v] by (auto simp: groupChar_def)

lemma getSubstitution_id: "CHR ''$'' \<notin> set r \<Longrightarrow> getSubstitution m pre post r = r"
  by (induction m pre post r rule: getSubstitution.induct) auto

lemma jsReplace_plain:
  "CHR ''$'' \<notin> set r \<Longrightarrow>
     jsReplace str pat r = (case splitAtFirst pat str of None \<Rightarrow> str | Some (pre, post) \<Rightarrow> pre @ r @ post)"
  by (simp add: jsReplace_def getSubstitution_id split: option.splits)

lemma splitAtFirst_skip:
  "CHR ''{'' \<notin> set u \<Longrightarrow>
     splitAtFirst (CHR ''{'' # pat) (u @ s)
       = map_option (\<lambda>(a, b). (u @ a, b)) (splitAtFirst (CHR ''{'' # pat) s)"
proof (induction u)
  case Nil
  show ?case by (simp add: option.map_ident case_prod_unfold)
next
  case (Cons c u)
  then have "\<not> prefix (CHR ''{'' # pat) (c # u @ s)" by auto
  with Cons show ?case
    by (simp add: option.map_comp comp_def case_prod_unfold)
qed

lemma takeWhile_stop: "c \<notin> set k \<Longrightarrow> takeWhile (\<lambda>x. x \<noteq> c) (k @ c # r) = k"
  by (induction k) auto

lemma placeholder_prefix:
  assumes "prefix (k @ ''}'') (n @ ''}'' @ s)"
    and "CHR ''}'' \<notin> set k" and "CHR ''}'' \<notin> set n"
  shows "k = n"
proof -
  from assms(1) obtain z where "n @ CHR ''}'' # s = k @ CHR ''}'' # z"
    by (auto simp: prefix_def)
  then have "takeWhile (\<lambda>x. x \<noteq> CHR ''}'') (k @ CHR ''}'' # z)
               = takeWhile (\<lambda>x. x \<noteq> CHR ''}'') (n @ CHR ''}'' # s)"
    by simp
  with assms(2,3) show ?thesis by (simp add: takeWhile_stop)
qed

text \<open>
  One call of \<open>url.replace\<close> on a template fills the placeholder of that key, when the
  placeholder names are pairwise different; the loop over the entries of the path map
  fills every placeholder that has an entry.
\<close>

lemma jsReplace_no_match:
  assumes "CHR ''$'' \<notin> set r" and "\<not> prefix pat (c # s)"
  shows "jsReplace (c # s) pat r = c # jsReplace s pat r"
  using assms by (simp add: jsReplace_plain split: option.splits)

lemma jsReplace_skip:
  assumes "CHR ''$'' \<notin> set r" and "CHR ''{'' \<notin> set u"
  shows "jsReplace (u @ s) (CHR ''{'' # p) r = u @ jsReplace s (CHR ''{'' # p) r"
  using assms(2)
proof (induction u)
  case Nil
  show ?case by simp
next
  case (Cons c u)
  then have "\<not> prefix (CHR ''{'' # p) (c # u @ s)" by auto
  from jsReplace_no_match [OF assms(1) this] Cons show ?case by simp
qed

lemma jsReplace_here:
  assumes "CHR ''$'' \<notin> set r"
  shows "jsReplace (c # p @ s) (c # p) r = r @ s"
  using assms by (simp add: jsReplace_plain)

lemma patternText_simps [simp]:
  "patternText [] = []"
  "patternText (Lit c # segs) = c # patternText segs"
  "patternText (Grp n # segs) = CHR ''{'' # n @ CHR ''}'' # patternText segs"
  "patternText (xs @ ys) = patternText xs @ patternText ys"
  by (simp_all add: patternText_def)

lemma patternText_Lits [simp]: "patternText (map Lit s) = s"
  by (induction s) simp_all

lemma fillWith_simps [simp]:
  "fillWith f [] = []"
  "fillWith f (Lit c # segs) = Lit c # fillWith f segs"
  "fillWith f (Grp n # segs) =
     (case f n of Some v \<Rightarrow> map Lit (encodeURIComponent v) | None \<Rightarrow> [Grp n]) @ fillWith f segs"
  "fillWith f (xs @ ys) = fillWith f xs @ fillWith f ys"
  by (simp_all add: fillWith_def)

lemma fillWith_Lits [simp]: "fillWith f (map Lit s) = map Lit s"
  by (induction s) simp_all

lemma groupNames_append [simp]: "groupNames (xs @ ys) = groupNames xs @ groupNames ys"
  by (induction xs rule: groupNames.induct) simp_all

lemma groupNames_Lits [simp]: "groupNames (map Lit s) = []"
  by (induction s) simp_all

lemma fillWith_absent: "\<forall>n \<in> set (groupNames segs). f n = None \<Longrightarrow> fillWith f segs = segs"
  by (induction segs rule: groupNames.induct) simp_all

lemma groupNames_fillWith:
  "groupNames (fillWith f segs) = filter (\<lambda>n. f n = None) (groupNames segs)"
  by (induction segs rule: groupNames.induct) (simp_all split: option.splits)

lemma Lit_fillWith:
  "Lit c \<in> set (fillWith f segs) \<Longrightarrow> Lit c \<in> set segs \<or> (\<exists>v. c \<in> set (encodeURIComponent v))"
  by (induction segs rule: groupNames.induct) (auto split: option.splits)

lemma templateOk_tl: "templateOk (x # segs) \<Longrightarrow> templateOk segs"
  by (cases x) (auto simp: templateOk_def)

lemma templateOk_fillWith:
  assumes "templateOk segs"
  shows "templateOk (fillWith f segs)"
proof -
  have "Lit CHR ''{'' \<notin> set (fillWith f segs)"
  proof
    assume "Lit CHR ''{'' \<in> set (fillWith f segs)"
    from Lit_fillWith [OF this] assms show False
      by (auto simp: templateOk_def encoded_no_brace)
  qed
  with assms show ?thesis by (simp add: templateOk_def groupNames_fillWith)
qed

lemma fillWith_fillWith:
  "fillWith g (fillWith f segs)
     = fillWith (\<lambda>n. case f n of Some v \<Rightarrow> Some v | None \<Rightarrow> g n) segs"
  by (induction segs rule: groupNames.induct) (simp_all split: option.splits)

lemma substitute_template:
  assumes "templateOk segs" and "distinct (groupNames segs)" and "CHR ''}'' \<notin> set k"
  shows "substitute (patternText segs) (k, v)
           = patternText (fillWith (\<lambda>n. if n = k then Some v else None) segs)"
  using assms(1,2)
proof (induction segs rule: groupNames.induct)
  case 1
  show ?case by (simp add: substitute_def jsReplace_def)
next
  case (2 c segs)
  from 2(2) have ok: "templateOk segs" by (rule templateOk_tl)
  from 2(2) have c: "CHR ''{'' \<notin> set [c]" by (auto simp: templateOk_def)
  have "jsReplace ([c] @ patternText segs) (CHR ''{'' # k @ ''}'') (encodeURIComponent v)
          = [c] @ jsReplace (patternText segs) (CHR ''{'' # k @ ''}'') (encodeURIComponent v)"
    using encoded_no_dollar c by (rule jsReplace_skip)
  with 2(1) [OF ok] 2(3) show ?case by (simp add: substitute_def)
next
  case (3 n segs)
  from 3(2) have ok: "templateOk segs" by (rule templateOk_tl)
  from 3(2) have n: "CHR ''{'' \<notin> set n" "CHR ''}'' \<notin> set n" by (auto simp: templateOk_def)
  show ?case
  proof (cases "n = k")
    case True
    from 3(3) True have "\<forall>m \<in> set (groupNames segs). (if m = k then Some v else None) = None"
      by auto
    then have "fillWith (\<lambda>n. if n = k then Some v else None) segs = segs"
      by (rule fillWith_absent)
    moreover have "jsReplace (CHR ''{'' # (k @ ''}'') @ patternText segs) (CHR ''{'' # k @ ''}'')
                     (encodeURIComponent v) = encodeURIComponent v @ patternText segs"
      using encoded_no_dollar by (rule jsReplace_here)
    ultimately show ?thesis using True by (simp add: substitute_def)
  next
    case False
    have np: "\<not> prefix (CHR ''{'' # k @ ''}'') (CHR ''{'' # (n @ ''}'') @ patternText segs)"
    proof
      assume "prefix (CHR ''{'' # k @ ''}'') (CHR ''{'' # (n @ ''}'') @ patternText segs)"
      then have "prefix (k @ ''}'') (n @ ''}'' @ patternText segs)" by simp
      from placeholder_prefix [OF this assms(3) n(2)] False show False by simp
    qed
    have u: "CHR ''{'' \<notin> set (n @ ''}'')" using n by simp
    have "jsReplace (CHR ''{'' # (n @ ''}'') @ patternText segs) (CHR ''{'' # k @ ''}'')
            (encodeURIComponent v)
          = CHR ''{'' # jsReplace ((n @ ''}'') @ patternText segs) (CHR ''{'' # k @ ''}'')
                          (encodeURIComponent v)"
      using encoded_no_dollar np by (rule jsReplace_no_match)
    also have "jsReplace ((n @ ''}'') @ patternText segs) (CHR ''{'' # k @ ''}'')
                 (encodeURIComponent v)
               = (n @ ''}'') @ jsReplace (patternText segs) (CHR ''{'' # k @ ''}'')
                                  (encodeURIComponent v)"
      using encoded_no_dollar u by (rule jsReplace_skip)
    finally show ?thesis using 3(1) [OF ok] 3(3) False by (simp add: substitute_def)
  qed
qed

lemma foldl_substitute_template:
  assumes "templateOk segs" and "distinct (groupNames segs)"
    and "\<forall>k \<in> fst ` set pathParams. CHR ''}'' \<notin> set k"
  shows "foldl substitute (patternText segs) pathParams
           = patternText (fillWith (map_of pathParams) segs)"
  using assms
proof (induction pathParams arbitrary: segs)
  case Nil
  then show ?case by (simp add: fillWith_absent)
next
  case (Cons e pathParams)
  obtain k v where e: "e = (k, v)" by (cases e)
  let ?f = "\<lambda>n. if n = k then Some v else None"
  from Cons(4) e have k: "CHR ''}'' \<notin> set k" by simp
  have step: "substitute (patternText segs) (k, v) = patternText (fillWith ?f segs)"
    using Cons(2,3) k by (rule substitute_template)
  have ok: "templateOk (fillWith ?f segs)" using Cons(2) by (rule templateOk_fillWith)
  have d: "distinct (groupNames (fillWith ?f segs))"
    using Cons(3) by (simp add: groupNames_fillWith)
  from Cons(4) have ks: "\<forall>k \<in> fst ` set pathParams. CHR ''}'' \<notin> set k" by simp
  have m: "(\<lambda>n. case ?f n of Some v \<Rightarrow> Some v | None \<Rightarrow> map_of pathParams n)
          = map_of ((k, v) # pathParams)"
    by (rule ext) simp
  have "foldl substitute (patternText segs) (e # pathParams)
          = foldl substitute (patternText (fillWith ?f segs)) pathParams"
    using step e by simp
  also have "\<dots> = patternText (fillWith (map_of pathParams) (fillWith ?f segs))"
    by (rule Cons(1) [OF ok d ks])
  also have "\<dots> = patternText (fillWith (map_of ((k, v) # pathParams)) segs)"
    unfolding fillWith_fillWith m ..
  finally show ?case unfolding e .
qed

lemma brace_in_template:
  "templateOk segs \<Longrightarrow> (CHR ''{'' \<in> set (patternText segs)) = (groupNames segs \<noteq> [])"
proof (induction segs rule: groupNames.induct)
  case 1
  show ?case by simp
next
  case (2 c segs)
  from 2(2) have "templateOk segs" by (rule templateOk_tl)
  moreover from 2(2) have "c \<noteq> CHR ''{''" by (auto simp: templateOk_def)
  ultimately show ?case using 2(1) by auto
next
  case (3 n segs)
  show ?case by simp
qed

lemma brace_in_filled:
  assumes "templateOk segs"
  shows "(CHR ''{'' \<in> set (patternText (fillWith (map_of pathParams) segs)))
           = (\<not> set (groupNames segs) \<subseteq> fst ` set pathParams)"
proof -
  have "(CHR ''{'' \<in> set (patternText (fillWith (map_of pathParams) segs)))
          = (groupNames (fillWith (map_of pathParams) segs) \<noteq> [])"
    using templateOk_fillWith [OF assms] by (rule brace_in_template)
  also have "\<dots> = (\<exists>n \<in> set (groupNames segs). map_of pathParams n = None)"
    by (simp add: groupNames_fillWith filter_empty_conv)
  also have "\<dots> = (\<not> set (groupNames segs) \<subseteq> fst ` set pathParams)"
    by (auto simp: map_of_eq_None_iff)
  finally show ?thesis .
qed

lemma patternText_scanPattern: "patternText (scanPattern p) = p"
proof (induction p rule: scanPattern.induct)
  case 1
  show ?case by simp
next
  case (2 c cs)
  let ?P = "\<lambda>x. x \<noteq> CHR ''}''"
  show ?case
  proof (cases "c = CHR ''{'' \<and> CHR ''}'' \<in> set cs \<and> \<not> hasLineTerminator (takeWhile ?P cs)")
    case True
    then have "dropWhile ?P cs \<noteq> []" by auto
    moreover have "dropWhile ?P cs \<noteq> [] \<Longrightarrow> hd (dropWhile ?P cs) = CHR ''}''"
      using hd_dropWhile [of ?P cs] by simp
    ultimately have "dropWhile ?P cs = CHR ''}'' # tl (dropWhile ?P cs)"
      by (cases "dropWhile ?P cs") auto
    then have "takeWhile ?P cs @ CHR ''}'' # tl (dropWhile ?P cs) = cs"
      using takeWhile_dropWhile_id [of ?P cs] by simp
    with True 2(1) show ?thesis by simp
  next
    case False
    with 2(2) show ?thesis by auto
  qed
qed

lemma identifier_no_brace:
  assumes "isIdentifier n"
  shows "CHR ''{'' \<notin> set n \<and> CHR ''}'' \<notin> set n"
proof -
  have "\<forall>c \<in> set n. uriUnreserved c"
    using assms
    by (cases n) (auto simp: isIdentifier_def uriUnreserved_def list_all_iff)
  moreover have "\<not> uriUnreserved (CHR ''{'')" "\<not> uriUnreserved (CHR ''}'')"
    by (rule reserved_not_unreserved, simp)+
  ultimately show ?thesis by blast
qed

lemma compiled_templateOk:
  assumes "compilePattern p = Inr segs" and "Lit CHR ''{'' \<notin> set segs"
  shows "templateOk segs" and "distinct (groupNames segs)" and "patternText segs = p"
proof -
  from assms(1) have s: "segs = scanPattern p"
    and i: "list_all isIdentifier (groupNames segs)" and d: "distinct (groupNames segs)"
    by (auto simp: compilePattern_def Let_def split: if_splits)
  from i assms(2) show "templateOk segs"
    by (auto simp: templateOk_def list_all_iff dest: identifier_no_brace)
  from d show "distinct (groupNames segs)" .
  from s show "patternText segs = p" by (simp add: patternText_scanPattern)
qed

section \<open>Placeholder substitution\<close>

text \<open>
  C2, as stated, fails: \<open>String.prototype.replace\<close> with a string as its pattern replaces
  the first occurrence only, so with the pattern \<open>/a/{x}/{x}\<close> and \<open>x = "v"\<close> the second
  \<open>{x}\<close> is left and the call throws; and the test for the error is an opening brace in
  the result, so \<open>/a/{b\<close>, which has no placeholder at all, throws as well.
\<close>

theorem first_occurrence_only_counterexample:
  "toRelativePath ''/a/{x}/{x}'' [(''x'', ''v'')] None = Inl PatternUnfulfilled
   \<and> foldl substitute ''/a/{x}/{x}'' [(''x'', ''v'')] = ''/a/v/{x}''
   \<and> toRelativePath ''/a/{b'' [] None = Inl PatternUnfulfilled"
  by code_simp

text \<open>
  C2, amended: for a pattern that \<open>fromUrl\<close> accepts (its placeholders are pairwise
  different identifiers) and that has no opening brace outside a placeholder, and for a path
  map whose keys have no closing brace, the result without query parameters is the
  pattern with every placeholder replaced by the percent-encoded value of its key, when
  every placeholder has an entry in the path map, and the error \<open>PatternUnfulfilled\<close>
  otherwise; with any query parameters the call throws exactly when some placeholder has no
  entry. For every pattern and every path map the only error is \<open>PatternUnfulfilled\<close>, and
  it is thrown exactly when an opening brace is left after each key's first occurrence was
  replaced. An instance of the README's class with a null \<open>name\<close> gives that error.
\<close>

theorem placeholder_substitution:
  assumes "compilePattern pattern = Inr segs"
    and "Lit CHR ''{'' \<notin> set segs"
    and "\<forall>key \<in> fst ` set pathParams. CHR ''}'' \<notin> set key"
  shows "toRelativePath pattern pathParams None
           = (if set (groupNames segs) \<subseteq> fst ` set pathParams
              then Inr (patternText (fillWith (map_of pathParams) segs))
              else Inl PatternUnfulfilled)
         \<and> (\<forall>queryParams.
               (\<exists>e. toRelativePath pattern pathParams queryParams = Inl e)
                 = (\<not> set (groupNames segs) \<subseteq> fst ` set pathParams))
         \<and> (\<forall>pattern' pathParams' queryParams e.
               (toRelativePath pattern' pathParams' queryParams = Inl e)
                 = (e = PatternUnfulfilled
                    \<and> CHR ''{'' \<in> set (foldl substitute pattern' pathParams')))"
proof -
  note c = compiled_templateOk [OF assms(1,2)]
  have url: "foldl substitute pattern pathParams
               = patternText (fillWith (map_of pathParams) segs)"
    using foldl_substitute_template [OF c(1,2) assms(3)] c(3) by simp
  have brace: "(CHR ''{'' \<in> set (foldl substitute pattern pathParams))
                 = (\<not> set (groupNames segs) \<subseteq> fst ` set pathParams)"
    unfolding url using c(1) by (rule brace_in_filled)
  have general: "(toRelativePath pattern' pathParams' queryParams = Inl e)
                   = (e = PatternUnfulfilled
                      \<and> CHR ''{'' \<in> set (foldl substitute pattern' pathParams'))"
    for pattern' pathParams' queryParams e
    by (auto simp: toRelativePath_def Let_def split: option.splits)
  have "toRelativePath pattern pathParams None
          = (if set (groupNames segs) \<subseteq> fst ` set pathParams
             then Inr (patternText (fillWith (map_of pathParams) segs))
             else Inl PatternUnfulfilled)"
    using brace url by (simp add: toRelativePath_def Let_def)
  moreover have "(\<exists>e. toRelativePath pattern pathParams queryParams = Inl e)
                   = (\<not> set (groupNames segs) \<subseteq> fst ` set pathParams)" for queryParams
    unfolding general brace [symmetric] by simp
  ultimately show ?thesis using general by blast
qed

theorem placeholder_substitution_witness:
  "toRelativePath ''/a/{x}/b'' [(''x'', ''hello world'')] None = Inr ''/a/hello%20world/b''
   \<and> (\<exists>e. toRelativePath ''/a/{x}/b'' [(''x'', ''hello world'')] (Some [(''q'', QStr ''1'')]) = Inl e)
       = False
   \<and> toRelativeUrl ExampleRoute
        [(''name'', JNull), (''isHappy'', JBool False), (''other'', JStr ''x'')] None
       = Inl PatternUnfulfilled"
proof -
  have c: "compilePattern ''/a/{x}/b''
             = Inr [Lit CHR ''/'', Lit CHR ''a'', Lit CHR ''/'', Grp ''x'', Lit CHR ''/'', Lit CHR ''b'']"
    by code_simp
  have h2: "Lit CHR ''{'' \<notin> set [Lit CHR ''/'', Lit CHR ''a'', Lit CHR ''/'', Grp ''x'', Lit CHR ''/'',
              Lit CHR ''b'']"
    by simp
  have h3: "\<forall>key \<in> fst ` set [(''x'', ''hello world'')]. CHR ''}'' \<notin> set key" by simp
  note t0 = placeholder_substitution [OF c h2 h3]
  have v: "(if set (groupNames [Lit CHR ''/'', Lit CHR ''a'', Lit CHR ''/'', Grp ''x'', Lit CHR ''/'',
                     Lit CHR ''b'']) \<subseteq> fst ` set [(''x'', ''hello world'')]
            then Inr (patternText (fillWith (map_of [(''x'', ''hello world'')])
                   [Lit CHR ''/'', Lit CHR ''a'', Lit CHR ''/'', Grp ''x'', Lit CHR ''/'', Lit CHR ''b'']))
            else Inl PatternUnfulfilled) = (Inr ''/a/hello%20world/b'' :: error + string)"
    by code_simp
  have s: "set (groupNames [Lit CHR ''/'', Lit CHR ''a'', Lit CHR ''/'', Grp ''x'', Lit CHR ''/'',
                     Lit CHR ''b'']) \<subseteq> fst ` set [(''x'', ''hello world'')]"
    by simp
  have u: "toRelativeUrl ExampleRoute
        [(''name'', JNull), (''isHappy'', JBool False), (''other'', JStr ''x'')] None
       = Inl PatternUnfulfilled"
    by code_simp
  from t0 [THEN conjunct1] v
  have a: "toRelativePath ''/a/{x}/b'' [(''x'', ''hello world'')] None = Inr ''/a/hello%20world/b''"
    by (rule trans)
  from t0 [THEN conjunct2, THEN conjunct1, rule_format, of "Some [(''q'', QStr ''1'')]"] s
  have b: "(\<exists>e. toRelativePath ''/a/{x}/b'' [(''x'', ''hello world'')] (Some [(''q'', QStr ''1'')]) = Inl e)
       = False"
    by simp
  from a b u show ?thesis by (intro conjI)
qed

end
